theory Spec2Isabelle
  imports Complex_Main "HOL-Library.Stream"
begin

section \<open>Numbers, the pointer and the random source\<close>

text \<open>
  The script is \<^verbatim>\<open>src/main.js\<close>. Its numbers are IEEE 754 binary64 numbers. Two parts of
  the script are modelled with the rounding of every operation written out (\<open>fl\<close> below):
  the hue line of \<^verbatim>\<open>update()\<close> and the cursor follower, because what is claimed of them
  depends on the rounding. In the other lines of \<^verbatim>\<open>update()\<close> and in \<^verbatim>\<open>initParticles\<close> the
  arithmetic is that of the real numbers, with \<^verbatim>\<open>Math.sqrt\<close>, \<^verbatim>\<open>Math.cos\<close>, \<^verbatim>\<open>Math.sin\<close> and
  \<^verbatim>\<open>Math.abs\<close> as \<open>sqrt\<close>, \<open>cos\<close>, \<open>sin\<close> and \<open>abs\<close>; bounds proved there hold of the
  script within floating-point tolerance. Infinities and NaN are outside the model.
  A quotient whose divisor is zero is not a real number: \<open>js_div\<close> is the operator
  \<^verbatim>\<open>/\<close> and returns \<open>None\<close> there, and every function that divides returns an option.
\<close>

definition js_div :: "real \<Rightarrow> real \<Rightarrow> real option" where
  "js_div a b = (if b = 0 then None else Some (a / b))"

text \<open>
  The remainder operator \<^verbatim>\<open>a % b\<close> truncates the quotient towards zero, so the result has
  the sign of the dividend. The only use in the script has the constant divisor 360.
\<close>

definition js_rem :: "real \<Rightarrow> real \<Rightarrow> real" where
  "js_rem a b =
     a - b * of_int (if a / b < 0 then \<lceil>a / b\<rceil> else \<lfloor>a / b\<rfloor>)"

subsection \<open>Rounding to binary64\<close>

text \<open>
  The result of an arithmetic operation is the binary64 number nearest to the exact result,
  a tie going to the one with the even significand. \<open>round_even\<close> is that rule on the
  integers; \<open>expo x\<close> is the exponent of the binade of \<open>x\<close>, not below that of the
  subnormal numbers; \<open>ulp x\<close> is the distance between the binary64 numbers of that binade;
  \<open>fl x\<close> is \<open>x\<close> rounded. A result too large for binary64 would be an infinity: \<open>fl\<close> is
  the rounding for results below \<open>2 ^ 1024\<close> only. The remainder \<^verbatim>\<open>%\<close> of two binary64
  numbers is exact.
\<close>

definition round_even :: "real \<Rightarrow> int" where
  "round_even y =
     (let n = \<lfloor>y\<rfloor>
      in if y - of_int n < 1 / 2 then n
         else if 1 / 2 < y - of_int n then n + 1
         else if even n then n else n + 1)"

definition expo :: "real \<Rightarrow> int" where
  "expo x = (if x = 0 then - 1022 else max \<lfloor>log 2 \<bar>x\<bar>\<rfloor> (- 1022))"

definition ulp :: "real \<Rightarrow> real" where
  "ulp x = 2 powr (of_int (expo x) - 52)"

definition fl :: "real \<Rightarrow> real" where
  "fl x = of_int (round_even (x / ulp x)) * ulp x"

text \<open>The binary64 numbers are the reals that rounding leaves as they are.\<close>

definition is_double :: "real \<Rightarrow> bool" where
  "is_double x \<longleftrightarrow> fl x = x"

text \<open>
  \<^verbatim>\<open>Math.atan2(y, x)\<close>, the angle of the point \<open>(x, y)\<close> in \<open>(-\<pi>, \<pi>]\<close>. Both arguments
  are differences \<^verbatim>\<open>a - b\<close> in the script, which are \<open>+0\<close> when they vanish, and
  \<^verbatim>\<open>Math.atan2(+0, +0)\<close> is \<open>+0\<close>, \<^verbatim>\<open>Math.atan2(+0, x)\<close> is \<open>\<pi>\<close> for negative \<open>x\<close>.
\<close>

definition atan2 :: "real \<Rightarrow> real \<Rightarrow> real" where
  "atan2 y x =
     (if 0 < x then arctan (y / x)
      else if x < 0 then (if 0 \<le> y then arctan (y / x) + pi else arctan (y / x) - pi)
      else if 0 < y then pi / 2
      else if y < 0 then - (pi / 2)
      else 0)"

text \<open>An object \<^verbatim>\<open>{ x: ..., y: ... }\<close>: a velocity, or a position of the cursor follower.\<close>

record point =
  x_of :: real
  y_of :: real

text \<open>
  \<^verbatim>\<open>let mouse = { x: undefined, y: undefined }\<close>: each coordinate is a number or
  \<^verbatim>\<open>undefined\<close>. The \<^verbatim>\<open>mousemove\<close> listener stores the pointer's coordinates, the
  \<^verbatim>\<open>mouseout\<close> listener stores \<^verbatim>\<open>undefined\<close> in both.
\<close>

record pointer =
  mouse_x :: "real option"
  mouse_y :: "real option"

definition mousemove :: "real \<Rightarrow> real \<Rightarrow> pointer \<Rightarrow> pointer" where
  "mousemove clientX clientY m = m\<lparr>mouse_x := Some clientX, mouse_y := Some clientY\<rparr>"

definition mouseout :: "pointer \<Rightarrow> pointer" where
  "mouseout m = m\<lparr>mouse_x := None, mouse_y := None\<rparr>"

text \<open>
  \<^verbatim>\<open>Math.random()\<close> is a stream of numbers: a call takes the head and leaves the tail.
  The values it returns are at least 0 and less than 1.
\<close>

type_synonym rng = "real stream"

definition random :: "rng \<Rightarrow> real \<times> rng" where
  "random g = (shd g, stl g)"

definition unit_interval :: "real \<Rightarrow> bool" where
  "unit_interval r \<longleftrightarrow> 0 \<le> r \<and> r < 1"

section \<open>The particle\<close>

record particle =
  pos_x :: real
  pos_y :: real
  radius :: real
  velocity :: point
  hue :: real

text \<open>What \<^verbatim>\<open>draw()\<close> paints: a filled circle, its colour \<^verbatim>\<open>hsl(hue, 100%, lightness)\<close>.\<close>

record circle =
  fill_hue :: real
  fill_lightness :: string
  arc_x :: real
  arc_y :: real
  arc_radius :: real

definition getParticleColors :: "bool \<Rightarrow> string" where
  "getParticleColors isDark = (if isDark then ''70%'' else ''50%'')"

definition draw :: "bool \<Rightarrow> particle \<Rightarrow> circle" where
  "draw isDark p =
     \<lparr>fill_hue = hue p, fill_lightness = getParticleColors isDark,
      arc_x = pos_x p, arc_y = pos_y p, arc_radius = radius p\<rparr>"

definition repelRadius :: real where
  "repelRadius = 100"

definition maxForce :: real where
  "maxForce = 2"

definition maxSpeed :: real where
  "maxSpeed = 1.5"

text \<open>The steps of \<^verbatim>\<open>Particle.update()\<close>, in the order of the source.\<close>

text \<open>
  \<^verbatim>\<open>this.hue = (this.hue + 0.5) % 360\<close>, in binary64: the sum is rounded, the remainder
  is exact.
\<close>

definition hue_next :: "real \<Rightarrow> real" where
  "hue_next h = js_rem (fl (h + 0.5)) 360"

definition hue_step :: "particle \<Rightarrow> particle" where
  "hue_step p = p\<lparr>hue := hue_next (hue p)\<rparr>"

definition repel :: "pointer \<Rightarrow> particle \<Rightarrow> particle option" where
  "repel m p =
     (case mouse_x m of
        None \<Rightarrow> Some p
      | Some mx \<Rightarrow>
         (case mouse_y m of
            None \<Rightarrow> Some p
          | Some my \<Rightarrow>
             (let dx = pos_x p - mx;
                  dy = pos_y p - my;
                  dist = sqrt (dx * dx + dy * dy)
              in if dist < repelRadius then
                   (let angle = atan2 dy dx
                    in case js_div (repelRadius - dist) repelRadius of
                         None \<Rightarrow> None
                       | Some force \<Rightarrow>
                           Some (p\<lparr>velocity :=
                             \<lparr>x_of = x_of (velocity p) + cos angle * force * maxForce,
                              y_of = y_of (velocity p) + sin angle * force * maxForce\<rparr>\<rparr>))
                 else Some p)))"

definition friction :: "particle \<Rightarrow> particle" where
  "friction p =
     p\<lparr>velocity := \<lparr>x_of = x_of (velocity p) * 0.97, y_of = y_of (velocity p) * 0.97\<rparr>\<rparr>"

definition speed_of :: "point \<Rightarrow> real" where
  "speed_of v = sqrt (x_of v * x_of v + y_of v * y_of v)"

definition speed_cap :: "particle \<Rightarrow> particle option" where
  "speed_cap p =
     (let speed = speed_of (velocity p)
      in if speed > maxSpeed then
           (case js_div (x_of (velocity p)) speed of
              None \<Rightarrow> None
            | Some qx \<Rightarrow>
               (case js_div (y_of (velocity p)) speed of
                  None \<Rightarrow> None
                | Some qy \<Rightarrow>
                    Some (p\<lparr>velocity := \<lparr>x_of = qx * maxSpeed, y_of = qy * maxSpeed\<rparr>\<rparr>)))
         else Some p)"

definition jitter_x :: "particle \<Rightarrow> rng \<Rightarrow> particle \<times> rng" where
  "jitter_x p g =
     (if \<bar>x_of (velocity p)\<bar> < 0.05 then
        (let (r, g') = random g
         in (p\<lparr>velocity := (velocity p)\<lparr>x_of := x_of (velocity p) + (r - 0.5) * 0.05\<rparr>\<rparr>, g'))
      else (p, g))"

definition jitter_y :: "particle \<Rightarrow> rng \<Rightarrow> particle \<times> rng" where
  "jitter_y p g =
     (if \<bar>y_of (velocity p)\<bar> < 0.05 then
        (let (r, g') = random g
         in (p\<lparr>velocity := (velocity p)\<lparr>y_of := y_of (velocity p) + (r - 0.5) * 0.05\<rparr>\<rparr>, g'))
      else (p, g))"

definition jitter :: "particle \<Rightarrow> rng \<Rightarrow> particle \<times> rng" where
  "jitter p g = (let (p', g') = jitter_x p g in jitter_y p' g')"

definition integrate :: "particle \<Rightarrow> particle" where
  "integrate p =
     p\<lparr>pos_x := pos_x p + x_of (velocity p), pos_y := pos_y p + y_of (velocity p)\<rparr>"

definition bounce_x :: "real \<Rightarrow> particle \<Rightarrow> particle" where
  "bounce_x width p =
     (if pos_x p - radius p < 0 then
        p\<lparr>pos_x := radius p,
          velocity := (velocity p)\<lparr>x_of := - x_of (velocity p) * 0.5\<rparr>\<rparr>
      else if pos_x p + radius p > width then
        p\<lparr>pos_x := width - radius p,
          velocity := (velocity p)\<lparr>x_of := - x_of (velocity p) * 0.5\<rparr>\<rparr>
      else p)"

definition bounce_y :: "real \<Rightarrow> particle \<Rightarrow> particle" where
  "bounce_y height p =
     (if pos_y p - radius p < 0 then
        p\<lparr>pos_y := radius p,
          velocity := (velocity p)\<lparr>y_of := - y_of (velocity p) * 0.5\<rparr>\<rparr>
      else if pos_y p + radius p > height then
        p\<lparr>pos_y := height - radius p,
          velocity := (velocity p)\<lparr>y_of := - y_of (velocity p) * 0.5\<rparr>\<rparr>
      else p)"

definition bounce :: "real \<Rightarrow> real \<Rightarrow> particle \<Rightarrow> particle" where
  "bounce width height p = bounce_y height (bounce_x width p)"

text \<open>
  The bounce in binary64: the difference \<^verbatim>\<open>this.x - this.radius\<close> and the sum
  \<^verbatim>\<open>this.x + this.radius\<close> are rounded before they are compared, and so are the
  difference \<^verbatim>\<open>canvas.width - this.radius\<close> and the product that are stored. The
  bounce is the last step of \<^verbatim>\<open>update()\<close> that writes the position.
\<close>

definition bounce_x64 :: "real \<Rightarrow> particle \<Rightarrow> particle" where
  "bounce_x64 width p =
     (if fl (pos_x p - radius p) < 0 then
        p\<lparr>pos_x := radius p,
          velocity := (velocity p)\<lparr>x_of := fl (- x_of (velocity p) * 0.5)\<rparr>\<rparr>
      else if fl (pos_x p + radius p) > width then
        p\<lparr>pos_x := fl (width - radius p),
          velocity := (velocity p)\<lparr>x_of := fl (- x_of (velocity p) * 0.5)\<rparr>\<rparr>
      else p)"

definition bounce_y64 :: "real \<Rightarrow> particle \<Rightarrow> particle" where
  "bounce_y64 height p =
     (if fl (pos_y p - radius p) < 0 then
        p\<lparr>pos_y := radius p,
          velocity := (velocity p)\<lparr>y_of := fl (- y_of (velocity p) * 0.5)\<rparr>\<rparr>
      else if fl (pos_y p + radius p) > height then
        p\<lparr>pos_y := fl (height - radius p),
          velocity := (velocity p)\<lparr>y_of := fl (- y_of (velocity p) * 0.5)\<rparr>\<rparr>
      else p)"

definition bounce64 :: "real \<Rightarrow> real \<Rightarrow> particle \<Rightarrow> particle" where
  "bounce64 width height p = bounce_y64 height (bounce_x64 width p)"

text \<open>
  The velocity after the hue, repulsion, friction and speed-cap steps, before the idle
  jitter reads it.
\<close>

definition capped :: "pointer \<Rightarrow> particle \<Rightarrow> particle option" where
  "capped m p =
     (case repel m (hue_step p) of
        None \<Rightarrow> None
      | Some p1 \<Rightarrow> speed_cap (friction p1))"

text \<open>
  \<^verbatim>\<open>update()\<close> reads the particle, the pointer, the size of the canvas, the random source
  (in the jitter branches only) and, through \<^verbatim>\<open>draw()\<close>, the dark-mode class. It returns
  the particle, the random source and the circle painted.
\<close>

definition update ::
  "pointer \<Rightarrow> real \<Rightarrow> real \<Rightarrow> bool \<Rightarrow> particle \<Rightarrow> rng \<Rightarrow> (particle \<times> rng \<times> circle) option" where
  "update m width height isDark p g =
     (case capped m p of
        None \<Rightarrow> None
      | Some p3 \<Rightarrow>
         (let (p4, g') = jitter p3 g;
              p6 = bounce width height (integrate p4)
          in Some (p6, g', draw isDark p6)))"

section \<open>The particle field\<close>

text \<open>
  The variables of \<^verbatim>\<open>setupParticleCanvas\<close> and what it reads of the page: the window's
  inner size, the dark-mode class, the canvas size, the particles, the pointer, the
  variable \<^verbatim>\<open>resizeTimer\<close> (the identifier of the last timeout set, or \<^verbatim>\<open>undefined\<close>) and
  the random source. Of the browser: the timeouts that are pending, each with its
  identifier and the time at which it is due, in milliseconds, and the next identifier
  that \<^verbatim>\<open>setTimeout\<close> will return. \<open>calls\<close> records each call of \<^verbatim>\<open>resizeCanvas\<close> and
  \<^verbatim>\<open>initParticles\<close> made by a listener or a timeout, with its time.
\<close>

datatype call = ResizeCanvas | InitParticles

record page =
  innerWidth :: real
  innerHeight :: real
  isDark :: bool
  canvas_width :: real
  canvas_height :: real
  particles :: "particle list"
  mouse :: pointer
  resizeTimer :: "nat option"
  timers :: "(nat \<times> nat) list"
  next_timer :: nat
  rand :: rng
  calls :: "(nat \<times> call) list"

definition resizeCanvas :: "page \<Rightarrow> page" where
  "resizeCanvas st = st\<lparr>canvas_width := innerWidth st, canvas_height := innerHeight st\<rparr>"

text \<open>The body of the loop of \<^verbatim>\<open>initParticles\<close>: six random numbers, in this order.\<close>

definition new_particle :: "real \<Rightarrow> real \<Rightarrow> rng \<Rightarrow> particle \<times> rng" where
  "new_particle width height g =
     (let (r1, g1) = random g;
          radius = r1 * 1.5 + 1;
          (r2, g2) = random g1;
          x = r2 * (width - radius * 2) + radius;
          (r3, g3) = random g2;
          y = r3 * (height - radius * 2) + radius;
          (r4, g4) = random g3;
          (r5, g5) = random g4;
          velocity = \<lparr>x_of = (r4 - 0.5) * 0.2, y_of = (r5 - 0.5) * 0.2\<rparr>;
          (r6, g6) = random g5;
          hue = r6 * 360
      in (\<lparr>pos_x = x, pos_y = y, radius = radius, velocity = velocity, hue = hue\<rparr>, g6))"

text \<open>
  \<^verbatim>\<open>for (let i = 0; i < particleCount; i++)\<close>: the first argument is the number of
  iterations left, \<open>ps\<close> the array so far; \<^verbatim>\<open>push\<close> appends.
\<close>

fun init_loop :: "nat \<Rightarrow> real \<Rightarrow> real \<Rightarrow> particle list \<Rightarrow> rng \<Rightarrow> particle list \<times> rng" where
  "init_loop 0 width height ps g = (ps, g)"
| "init_loop (Suc n) width height ps g =
     (let (p, g') = new_particle width height g
      in init_loop n width height (ps @ [p]) g')"

definition particleCount :: "real \<Rightarrow> nat" where
  "particleCount w = (if w < 768 then 40 else 80)"

definition initParticles :: "page \<Rightarrow> page" where
  "initParticles st =
     (let st1 = st\<lparr>particles := []\<rparr>;
          (ps, g) = init_loop (particleCount (innerWidth st1))
                      (canvas_width st1) (canvas_height st1) (particles st1) (rand st1)
      in st1\<lparr>particles := ps, rand := g\<rparr>)"

text \<open>
  \<^verbatim>\<open>p.update()\<close> inside the page: the pointer, the canvas size, the dark-mode class and
  the random source are the page's; the circle is painted on the canvas.
\<close>

definition update_in :: "page \<Rightarrow> particle \<Rightarrow> (particle \<times> circle \<times> page) option" where
  "update_in st p =
     (case update (mouse st) (canvas_width st) (canvas_height st) (isDark st) p (rand st) of
        None \<Rightarrow> None
      | Some (p', g', c) \<Rightarrow> Some (p', c, st\<lparr>rand := g'\<rparr>))"

text \<open>\<^verbatim>\<open>particles.forEach(p => p.update())\<close>, in the order of the array.\<close>

fun forEach_update :: "page \<Rightarrow> particle list \<Rightarrow> (particle list \<times> circle list \<times> page) option" where
  "forEach_update st [] = Some ([], [], st)"
| "forEach_update st (p # ps) =
     (case update_in st p of
        None \<Rightarrow> None
      | Some (p', c, st') \<Rightarrow>
         (case forEach_update st' ps of
            None \<Rightarrow> None
          | Some (ps', cs, st'') \<Rightarrow> Some (p' # ps', c # cs, st'')))"

text \<open>
  One frame of \<^verbatim>\<open>animate\<close>: the canvas is cleared, every particle is updated and painted.
  The result is the page and what the canvas shows.
\<close>

definition animate :: "page \<Rightarrow> (page \<times> circle list) option" where
  "animate st =
     (case forEach_update st (particles st) of
        None \<Rightarrow> None
      | Some (ps, cs, st') \<Rightarrow> Some (st'\<lparr>particles := ps\<rparr>, cs))"


subsection \<open>Resize events and the timeout\<close>

definition record_call :: "nat \<Rightarrow> call \<Rightarrow> page \<Rightarrow> page" where
  "record_call t c st = st\<lparr>calls := calls st @ [(t, c)]\<rparr>"

text \<open>
  \<^verbatim>\<open>setTimeout(callback, delay)\<close> at time \<open>now\<close>: the timeout joins the pending ones and
  its identifier is returned. The script sets timeouts for one callback only, the one of
  the resize handler, so a pending timeout need not name its callback.
  \<^verbatim>\<open>clearTimeout(id)\<close> removes the pending timeout of that identifier; with \<^verbatim>\<open>undefined\<close>,
  or with the identifier of a timeout that has run, it does nothing.
\<close>

definition setTimeout :: "nat \<Rightarrow> nat \<Rightarrow> page \<Rightarrow> nat \<times> page" where
  "setTimeout delay now st =
     (next_timer st,
      st\<lparr>timers := timers st @ [(next_timer st, now + delay)],
         next_timer := Suc (next_timer st)\<rparr>)"

definition clearTimeout :: "nat option \<Rightarrow> page \<Rightarrow> page" where
  "clearTimeout handle st =
     (case handle of
        None \<Rightarrow> st
      | Some i \<Rightarrow> st\<lparr>timers := filter (\<lambda>(j, d). j \<noteq> i) (timers st)\<rparr>)"

text \<open>
  A \<^verbatim>\<open>resize\<close> event at time \<open>t\<close>, the window now \<open>w\<close> by \<open>h\<close>. Two listeners are
  registered for it and run in the order of registration: \<^verbatim>\<open>resizeCanvas\<close> itself, then
  the handler that clears the timeout of \<^verbatim>\<open>resizeTimer\<close> and sets a new one, due 250 ms
  later, whose identifier it stores in \<^verbatim>\<open>resizeTimer\<close>.
\<close>

definition on_resize :: "nat \<Rightarrow> real \<Rightarrow> real \<Rightarrow> page \<Rightarrow> page" where
  "on_resize t w h st =
     (let st1 = st\<lparr>innerWidth := w, innerHeight := h\<rparr>;
          st2 = record_call t ResizeCanvas (resizeCanvas st1);
          st3 = clearTimeout (resizeTimer st2) st2;
          (i, st4) = setTimeout 250 t st3
      in st4\<lparr>resizeTimer := Some i\<rparr>)"

text \<open>The callback of the timeout, run at time \<open>t\<close>.\<close>

definition timeout_fires :: "nat \<Rightarrow> page \<Rightarrow> page" where
  "timeout_fires t st =
     (let st1 = record_call t ResizeCanvas (resizeCanvas st)
      in record_call t InitParticles (initParticles st1))"

text \<open>
  The clock reaches \<open>t\<close>: the timeouts due by then leave the pending ones and run, each at
  the time it is due, in the order in which they were set (which is the order in which
  they are due, the delay being the same for all).
\<close>

definition advance :: "nat \<Rightarrow> page \<Rightarrow> page" where
  "advance t st =
     (let due = filter (\<lambda>(i, d). d \<le> t) (timers st);
          st1 = st\<lparr>timers := filter (\<lambda>(i, d). \<not> d \<le> t) (timers st)\<rparr>
      in fold (\<lambda>(i, d). timeout_fires d) due st1)"

text \<open>A sequence of resize events, each with its time and the window's new size.\<close>

fun run :: "(nat \<times> real \<times> real) list \<Rightarrow> page \<Rightarrow> page" where
  "run [] st = st"
| "run ((t, w, h) # es) st = run es (on_resize t w h (advance t st))"

text \<open>No further event arrives: every pending timeout runs when it is due.\<close>

definition settle :: "page \<Rightarrow> page" where
  "settle st = fold (\<lambda>(i, d). timeout_fires d) (timers st) (st\<lparr>timers := []\<rparr>)"

text \<open>A burst: the times do not decrease and each event is less than 250 ms after the one before.\<close>

fun burst :: "nat list \<Rightarrow> bool" where
  "burst [] = True"
| "burst [t] = True"
| "burst (t # u # ts) = (t \<le> u \<and> u < t + 250 \<and> burst (u # ts))"

text \<open>
  At most one timeout is pending in \<open>st\<close>, the one of \<^verbatim>\<open>resizeTimer\<close>, and it is not yet
  due at the first of the events.
\<close>

definition one_pending :: "page \<Rightarrow> (nat \<times> real \<times> real) list \<Rightarrow> bool" where
  "one_pending st es \<longleftrightarrow>
     timers st = [] \<or>
     (\<exists>i d. timers st = [(i, d)] \<and> resizeTimer st = Some i \<and>
            (case es of [] \<Rightarrow> True | e # _ \<Rightarrow> fst e < d))"

definition count_calls :: "call \<Rightarrow> page \<Rightarrow> nat" where
  "count_calls c st = length (filter (\<lambda>(t, c'). c' = c) (calls st))"

section \<open>The cursor follower\<close>




text \<open>
  \<^verbatim>\<open>current.x += (target.x - current.x) * smoothing\<close> in binary64: the difference, the
  product and the sum are each rounded.
\<close>

definition lerp :: "real \<Rightarrow> real \<Rightarrow> real \<Rightarrow> real" where
  "lerp c t s = fl (c + fl (fl (t - c) * s))"


section \<open>Sample states\<close>

text \<open>
  A page for the concrete runs below: a window \<open>w\<close> wide and 768 high, a canvas of 1024
  by 768, no particle yet, the pointer outside, no timeout pending, the random source \<open>g\<close>.
\<close>

definition sample_page :: "real \<Rightarrow> rng \<Rightarrow> page" where
  "sample_page w g =
     \<lparr>innerWidth = w, innerHeight = 768, isDark = False,
      canvas_width = 1024, canvas_height = 768, particles = [],
      mouse = \<lparr>mouse_x = None, mouse_y = None\<rparr>, resizeTimer = None,
      timers = [], next_timer = 0, rand = g, calls = []\<rparr>"

definition sample_particle :: particle where
  "sample_particle =
     \<lparr>pos_x = 300, pos_y = 300, radius = 2, velocity = \<lparr>x_of = 0.3, y_of = 0.4\<rparr>, hue = 0\<rparr>"

section \<open>Facts about the rounding\<close>

lemma round_even_of_int: "round_even (of_int n) = n"
  by (simp add: round_even_def)

lemma round_even_bounds: "\<lfloor>y\<rfloor> \<le> round_even y \<and> round_even y \<le> \<lceil>y\<rceil>"
proof -
  have "\<lceil>y\<rceil> = \<lfloor>y\<rfloor> + 1" if "y - of_int \<lfloor>y\<rfloor> \<noteq> 0"
    using that by (metis ceiling_altdef diff_self of_int_floor_cancel)
  moreover have "\<lfloor>y\<rfloor> \<le> \<lceil>y\<rceil>" by (simp add: floor_le_ceiling)
  ultimately show ?thesis
    by (auto simp: round_even_def Let_def)
qed

lemma round_even_le: "y \<le> of_int N \<Longrightarrow> round_even y \<le> N"
  using round_even_bounds [of y] by (meson ceiling_le order_trans)

lemma round_even_ge: "of_int N \<le> y \<Longrightarrow> N \<le> round_even y"
  using round_even_bounds [of y] by (meson le_floor_iff order_trans)

lemma round_even_err: "\<bar>of_int (round_even y) - y\<bar> \<le> 1 / 2"
proof -
  have "of_int \<lfloor>y\<rfloor> \<le> y" "y < of_int \<lfloor>y\<rfloor> + 1" by linarith+
  then show ?thesis
    by (auto simp: round_even_def Let_def abs_le_iff)
qed

lemma round_even_minus: "round_even (- y) = - round_even y"
proof (cases "y = of_int \<lfloor>y\<rfloor>")
  case True
  then obtain n where "y = of_int n" by metis
  then show ?thesis
    by (metis of_int_minus round_even_of_int)
next
  case False
  define n where "n = \<lfloor>y\<rfloor>"
  have n: "of_int n < y" "y < of_int n + 1"
    using False unfolding n_def by linarith+
  have f: "\<lfloor>- y\<rfloor> = - n - 1"
    using n by (simp add: floor_eq_iff)
  have e: "even (- n - 1) \<longleftrightarrow> \<not> even n" by simp
  show ?thesis
    unfolding round_even_def Let_def f n_def [symmetric] e
    using n by (auto simp: field_simps)
qed

lemma ulp_pos: "0 < ulp x"
  by (simp add: ulp_def)

lemma floor_log2_bounds:
  assumes "x \<noteq> 0"
  shows "2 powr of_int \<lfloor>log 2 \<bar>x\<bar>\<rfloor> \<le> \<bar>x\<bar> \<and> \<bar>x\<bar> < 2 powr (of_int \<lfloor>log 2 \<bar>x\<bar>\<rfloor> + 1)"
proof -
  have "0 < \<bar>x\<bar>" using assms by simp
  then show ?thesis
    using floor_log_eq_powr_iff [of "\<bar>x\<bar>" 2 "\<lfloor>log 2 \<bar>x\<bar>\<rfloor>"] by simp
qed

lemma expo_ge: "- 1022 \<le> expo x"
  by (simp add: expo_def)

lemma expo_eq:
  assumes "2 powr of_int e \<le> \<bar>x\<bar>" "\<bar>x\<bar> < 2 powr (of_int e + 1)" "- 1022 \<le> e"
  shows "expo x = e"
proof -
  have "(0::real) < 2 powr of_int e" by simp
  then have x: "0 < \<bar>x\<bar>" using assms(1) by linarith
  then have "\<lfloor>log 2 \<bar>x\<bar>\<rfloor> = e"
    using floor_log_eq_powr_iff [of "\<bar>x\<bar>" 2 e] assms by simp
  then show ?thesis using assms(3) x by (simp add: expo_def)
qed

lemma expo_le:
  assumes "\<bar>x\<bar> < 2 powr (of_int e + 1)" "- 1022 \<le> e"
  shows "expo x \<le> e"
proof (cases "x = 0")
  case True
  then show ?thesis using assms(2) by (simp add: expo_def)
next
  case False
  have "(2::real) powr of_int \<lfloor>log 2 \<bar>x\<bar>\<rfloor> < 2 powr (of_int e + 1)"
    using floor_log2_bounds [OF False] assms(1) by linarith
  then have "of_int \<lfloor>log 2 \<bar>x\<bar>\<rfloor> < (of_int e + 1 :: real)"
    by simp
  then have "\<lfloor>log 2 \<bar>x\<bar>\<rfloor> \<le> e" by linarith
  then show ?thesis using assms(2) by (simp add: expo_def)
qed

text \<open>In the normal range the significand \<open>|x| / ulp x\<close> lies in \<open>[2^52, 2^53)\<close>.\<close>

lemma ulp_normal:
  assumes "2 powr (- 1022) \<le> \<bar>x\<bar>"
  shows "2 ^ 52 * ulp x \<le> \<bar>x\<bar> \<and> \<bar>x\<bar> < 2 ^ 53 * ulp x"
proof -
  have "(0::real) < 2 powr (- 1022)" by simp
  then have x: "x \<noteq> 0" using assms by linarith
  define l where "l = \<lfloor>log 2 \<bar>x\<bar>\<rfloor>"
  have b: "2 powr of_int l \<le> \<bar>x\<bar>" "\<bar>x\<bar> < 2 powr (of_int l + 1)"
    using floor_log2_bounds [OF x] by (simp_all add: l_def)
  have "(2::real) powr (- 1022) < 2 powr (of_int l + 1)"
    using assms b(2) by linarith
  then have "(- 1022 :: real) < of_int l + 1" by simp
  then have l: "- 1022 \<le> l" by linarith
  then have e: "expo x = l" using x by (simp add: expo_def l_def)
  have 1: "2 ^ 52 * ulp x = 2 powr of_int l"
    by (simp add: ulp_def e powr_diff)
  have 2: "2 ^ 53 * ulp x = 2 powr (of_int l + 1)"
    by (simp add: ulp_def e powr_diff powr_add)
  show ?thesis using b 1 2 by simp
qed

lemma ulp_subnormal:
  assumes "\<bar>x\<bar> < 2 powr (- 1022)"
  shows "ulp x = 2 powr (- 1074)"
proof -
  have "expo x = - 1022"
  proof (cases "x = 0")
    case True
    then show ?thesis by (simp add: expo_def)
  next
    case False
    have "(2::real) powr of_int \<lfloor>log 2 \<bar>x\<bar>\<rfloor> < 2 powr (- 1022)"
      using floor_log2_bounds [OF False] assms by linarith
    then have "of_int \<lfloor>log 2 \<bar>x\<bar>\<rfloor> < (- 1022 :: real)" by simp
    then have "\<lfloor>log 2 \<bar>x\<bar>\<rfloor> \<le> - 1022" by linarith
    then show ?thesis using False by (simp add: expo_def)
  qed
  then show ?thesis by (simp add: ulp_def)
qed

lemma ulp_ge: "2 powr (- 1074) \<le> ulp x"
proof -
  have "(- 1074 :: real) \<le> of_int (expo x) - 52"
    using expo_ge [of x] by linarith
  then show ?thesis unfolding ulp_def by simp
qed

lemma ulp_le_max: "ulp x \<le> max \<bar>x\<bar> (2 powr (- 1074))"
proof (cases "\<bar>x\<bar> < 2 powr (- 1022)")
  case True
  then show ?thesis by (simp add: ulp_subnormal)
next
  case False
  then have "2 ^ 52 * ulp x \<le> \<bar>x\<bar>" using ulp_normal [of x] by simp
  moreover have "ulp x \<le> 2 ^ 52 * ulp x" using ulp_pos [of x] by simp
  ultimately show ?thesis by linarith
qed

lemma ulp_minus: "ulp (- x) = ulp x"
  by (simp add: ulp_def expo_def)

lemma fl_minus: "fl (- x) = - fl x"
  by (simp add: fl_def ulp_minus round_even_minus)

lemma fl_zero: "fl 0 = 0"
  by (simp add: fl_def round_even_def)

lemma fl_err: "\<bar>fl x - x\<bar> \<le> ulp x / 2"
proof -
  have "fl x - x = (of_int (round_even (x / ulp x)) - x / ulp x) * ulp x"
    using ulp_pos [of x] by (simp add: fl_def field_simps)
  then have "\<bar>fl x - x\<bar> = \<bar>of_int (round_even (x / ulp x)) - x / ulp x\<bar> * ulp x"
    using ulp_pos [of x] by (simp add: abs_mult)
  also have "\<dots> \<le> 1 / 2 * ulp x"
    using round_even_err [of "x / ulp x"] ulp_pos [of x] by (intro mult_right_mono) simp_all
  finally show ?thesis by simp
qed

lemma fl_nonneg: "0 \<le> x \<Longrightarrow> 0 \<le> fl x"
proof -
  assume "0 \<le> x"
  then have "of_int 0 \<le> x / ulp x" using ulp_pos [of x] by simp
  then have "0 \<le> round_even (x / ulp x)" by (rule round_even_ge)
  then show ?thesis using ulp_pos [of x] by (simp add: fl_def)
qed

lemma fl_nonpos: "x \<le> 0 \<Longrightarrow> fl x \<le> 0"
  using fl_nonneg [of "- x"] by (simp add: fl_minus)

lemma abs_lt_ulp: "\<bar>x\<bar> < 2 ^ 53 * ulp x"
proof (cases "\<bar>x\<bar> < 2 powr (- 1022)")
  case True
  have "(2::real) powr (- 1022) = 2 ^ 52 * 2 powr (- 1074)"
    by (simp add: powr_minus powr_numeral flip: power_add)
  also have "\<dots> < 2 ^ 53 * 2 powr (- 1074)" by simp
  finally show ?thesis using True by (simp add: ulp_subnormal)
next
  case False
  then show ?thesis using ulp_normal [of x] by simp
qed

lemma ulp_eq_powr: "ulp x = 2 powr (of_int (expo x) - 52)"
  by (simp add: ulp_def)

lemma expo_mono:
  assumes "\<bar>x\<bar> \<le> \<bar>y\<bar>"
  shows "expo x \<le> expo y"
proof (cases "x = 0")
  case True
  then show ?thesis using expo_ge [of y] by (simp add: expo_def)
next
  case False
  then have y: "y \<noteq> 0" using assms by auto
  have "log 2 \<bar>x\<bar> \<le> log 2 \<bar>y\<bar>"
    using False assms by simp
  then have "\<lfloor>log 2 \<bar>x\<bar>\<rfloor> \<le> \<lfloor>log 2 \<bar>y\<bar>\<rfloor>" by (rule floor_mono)
  then show ?thesis using False y by (simp add: expo_def)
qed

text \<open>Across binades the unit in the last place grows by powers of two.\<close>

lemma ulp_ratio:
  assumes "expo x \<le> expo y"
  shows "ulp y = 2 ^ nat (expo y - expo x) * ulp x"
proof -
  have "of_int (expo y) - 52 = real (nat (expo y - expo x)) + (of_int (expo x) - 52)"
    using assms by simp
  then have "ulp y = 2 powr real (nat (expo y - expo x)) * 2 powr (of_int (expo x) - 52)"
    unfolding ulp_def by (simp only: powr_add)
  then show ?thesis by (simp add: ulp_def powr_realpow)
qed

lemma fl_significand: "fl x = of_int (round_even (x / ulp x)) * ulp x"
  by (simp add: fl_def)

text \<open>A multiple of a power of two that is at least as coarse as the unit in the last place is a double.\<close>

lemma fl_exact:
  assumes "x = of_int m * 2 powr of_int k" and "expo x - 52 \<le> k"
  shows "fl x = x"
proof -
  define n where "n = nat (k - (expo x - 52))"
  have "of_int k = real n + (of_int (expo x) - 52)"
    using assms(2) by (simp add: n_def)
  then have "2 powr of_int k = 2 powr real n * 2 powr (of_int (expo x) - 52)"
    by (simp only: powr_add)
  then have "2 powr of_int k = 2 ^ n * ulp x"
    by (simp add: ulp_def powr_realpow)
  then have "x = of_int (m * 2 ^ n) * ulp x"
    using assms(1) by simp
  then have "x / ulp x = of_int (m * 2 ^ n)"
    using ulp_pos [of x] by (simp add: field_simps)
  then have "round_even (x / ulp x) = m * 2 ^ n"
    by (simp only: round_even_of_int)
  then show ?thesis
    using \<open>x = of_int (m * 2 ^ n) * ulp x\<close> by (simp add: fl_def)
qed

lemma fl_exact_dyadic:
  assumes "x = of_int m / 2 ^ n" and "\<bar>x\<bar> < 2 ^ j" and "j + n \<le> 53"
  shows "fl x = x"
proof (cases "j = 0")
  case True
  have "expo x \<le> - 1" 
    using expo_le [of x "- 1"] assms(2) True by simp
  then have "expo x - 52 \<le> - int n" using assms(3) True by linarith
  moreover have "x = of_int m * 2 powr of_int (- int n)"
    using assms(1) by (simp add: powr_minus powr_realpow field_simps)
  ultimately show ?thesis by (rule fl_exact [rotated])
next
  case False
  have "(2::real) ^ j = 2 powr (of_int (int j - 1) + 1)"
    using False by (simp add: powr_realpow flip: of_nat_diff)
  then have "expo x \<le> int j - 1"
    using expo_le [of x "int j - 1"] assms(2) by simp
  then have "expo x - 52 \<le> - int n" using assms(3) by linarith
  moreover have "x = of_int m * 2 powr of_int (- int n)"
    using assms(1) by (simp add: powr_minus powr_realpow field_simps)
  ultimately show ?thesis by (rule fl_exact [rotated])
qed

lemma is_double_multiple:
  assumes "is_double x"
  shows "\<exists>k::int. x = of_int k * 2 powr (- 1074)"
proof -
  define n where "n = nat (expo x + 1022)"
  have "of_int (expo x) - 52 = real n + (- 1074)"
    using expo_ge [of x] by (simp add: n_def)
  then have "ulp x = 2 powr real n * 2 powr (- 1074)"
    unfolding ulp_def by (simp only: powr_add)
  then have u: "ulp x = 2 ^ n * 2 powr (- 1074)"
    by (simp add: powr_realpow)
  have "x = of_int (round_even (x / ulp x)) * ulp x"
    using assms by (simp add: is_double_def fl_def)
  then have "x = of_int (round_even (x / ulp x) * 2 ^ n) * 2 powr (- 1074)"
    using u by simp
  then show ?thesis by blast
qed

lemma is_double_significand:
  assumes "is_double t"
  shows "t = of_int (round_even (t / ulp t)) * ulp t"
  using assms by (simp add: is_double_def fl_def)

lemma is_double_minus: "is_double (- t) = is_double t"
  by (auto simp: is_double_def fl_minus)

text \<open>Rounding does not cross a double: the nearest double to \<open>x \<le> t\<close> is at most \<open>t\<close>.\<close>

lemma fl_le_double_nonneg:
  assumes "0 \<le> x" "x \<le> t" "is_double t"
  shows "fl x \<le> t"
proof -
  have e: "expo x \<le> expo t" using assms(1,2) by (intro expo_mono) simp
  define n where "n = nat (expo t - expo x)"
  define T where "T = round_even (t / ulp t)"
  have "t = of_int T * ulp t" unfolding T_def using assms(3) by (rule is_double_significand)
  also have "ulp t = 2 ^ n * ulp x" unfolding n_def using e by (rule ulp_ratio)
  finally have t: "t = of_int (T * 2 ^ n) * ulp x" by simp
  then have "x / ulp x \<le> of_int (T * 2 ^ n)"
    using assms(2) ulp_pos [of x] by (simp add: field_simps)
  then have "round_even (x / ulp x) \<le> T * 2 ^ n" by (rule round_even_le)
  then have "(of_int (round_even (x / ulp x)) :: real) \<le> of_int (T * 2 ^ n)"
    by (simp only: of_int_le_iff)
  then have "of_int (round_even (x / ulp x)) * ulp x \<le> of_int (T * 2 ^ n) * ulp x"
    using ulp_pos [of x] by (intro mult_right_mono) simp_all
  then show ?thesis using t by (simp add: fl_def)
qed

lemma fl_ge_double_nonneg:
  assumes "0 \<le> t" "t \<le> x" "is_double t"
  shows "t \<le> fl x"
proof -
  have e: "expo t \<le> expo x" using assms(1,2) by (intro expo_mono) simp
  show ?thesis
  proof (cases "expo t = expo x")
    case True
    then have u: "ulp t = ulp x" by (simp add: ulp_def)
    define T where "T = round_even (t / ulp t)"
    have "t = of_int T * ulp t" unfolding T_def using assms(3) by (rule is_double_significand)
    then have t: "t = of_int T * ulp x" by (simp only: u)
    then have "of_int T \<le> x / ulp x"
      using assms(2) ulp_pos [of x] by (simp add: field_simps)
    then have "T \<le> round_even (x / ulp x)" by (rule round_even_ge)
    then have "(of_int T :: real) \<le> of_int (round_even (x / ulp x))"
      by (simp only: of_int_le_iff)
    then have "of_int T * ulp x \<le> of_int (round_even (x / ulp x)) * ulp x"
      using ulp_pos [of x] by (intro mult_right_mono) simp_all
    then show ?thesis using t by (simp add: fl_def)
  next
    case False
    then have lt: "expo t < expo x" using e by simp
    define n where "n = nat (expo x - expo t)"
    have n: "1 \<le> n" using lt by (simp add: n_def)
    have ux: "ulp x = 2 ^ n * ulp t" unfolding n_def using e by (rule ulp_ratio)
    have "(2::real) ^ 1 \<le> 2 ^ n" using n by (intro power_increasing) simp_all
    then have "2 * ulp t \<le> ulp x" using ux ulp_pos [of t] by simp
    then have "2 ^ 53 * ulp t \<le> 2 ^ 52 * ulp x" by simp
    then have tx: "t < 2 ^ 52 * ulp x" using abs_lt_ulp [of t] by linarith
    have "- 1022 < expo x" using lt expo_ge [of t] by linarith
    define L where "L = \<lfloor>log 2 \<bar>x\<bar>\<rfloor>"
    have x0: "x \<noteq> 0" using \<open>- 1022 < expo x\<close> by (auto simp: expo_def)
    then have "expo x = max L (- 1022)" by (simp add: expo_def L_def)
    then have "- 1021 \<le> L" using \<open>- 1022 < expo x\<close> by linarith
    then have "(- 1021 :: real) \<le> of_int L" by linarith
    then have "(2::real) powr (- 1021) \<le> 2 powr of_int L"
      by simp
    moreover have "2 powr of_int L \<le> \<bar>x\<bar>"
      unfolding L_def using floor_log2_bounds [OF x0] by simp
    ultimately have "(2::real) powr (- 1021) \<le> \<bar>x\<bar>" by linarith
    moreover have "(2::real) powr (- 1022) \<le> 2 powr (- 1021)" by simp
    ultimately have "2 powr (- 1022) \<le> \<bar>x\<bar>" by linarith
    then have "2 ^ 52 * ulp x \<le> \<bar>x\<bar>" using ulp_normal [of x] by simp
    then have "of_int (2 ^ 52) \<le> x / ulp x"
      using assms(1,2) ulp_pos [of x] by (simp add: field_simps)
    then have "2 ^ 52 \<le> round_even (x / ulp x)" by (rule round_even_ge)
    then have "(of_int (2 ^ 52) :: real) \<le> of_int (round_even (x / ulp x))"
      by (simp only: of_int_le_iff)
    then have "of_int (2 ^ 52) * ulp x \<le> of_int (round_even (x / ulp x)) * ulp x"
      using ulp_pos [of x] by (intro mult_right_mono) simp_all
    then show ?thesis using tx by (simp add: fl_def)
  qed
qed

lemma fl_le_double:
  assumes "x \<le> t" "is_double t"
  shows "fl x \<le> t"
proof -
  consider "0 \<le> x" | "x < 0" "0 \<le> t" | "t < 0" using assms(1) by linarith
  then show ?thesis
  proof cases
    case 1
    then show ?thesis using assms by (simp add: fl_le_double_nonneg)
  next
    case 2
    then show ?thesis using fl_nonpos [of x] by simp
  next
    case 3
    have "- t \<le> fl (- x)"
      using 3 assms by (intro fl_ge_double_nonneg) (simp_all add: is_double_minus)
    then show ?thesis by (simp add: fl_minus)
  qed
qed

lemma fl_ge_double:
  assumes "t \<le> x" "is_double t"
  shows "t \<le> fl x"
  using fl_le_double [of "- x" "- t"] assms by (simp add: fl_minus is_double_minus)


text \<open>The rounding in a known binade, for evaluating it on numerals.\<close>

lemma fl_binade:
  assumes "2 ^ k \<le> x" "x < 2 * 2 ^ k"
  shows "fl x = of_int (round_even (x * 2 ^ 52 / 2 ^ k)) * 2 ^ k / 2 ^ 52"
proof -
  have "2 powr of_int (int k) \<le> \<bar>x\<bar>" "\<bar>x\<bar> < 2 powr (of_int (int k) + 1)"
    using assms by (simp_all add: powr_realpow powr_add)
  then have "expo x = int k" by (intro expo_eq) simp_all
  then have u: "ulp x = 2 ^ k / 2 ^ 52"
    by (simp add: ulp_def powr_diff powr_realpow)
  have "x / ulp x = x * 2 ^ 52 / 2 ^ k"
    unfolding u by simp
  then show ?thesis unfolding fl_def by (simp add: u)
qed

lemma fl_binade_neg:
  assumes "1 / 2 ^ k \<le> x" "x < 2 / 2 ^ k" "k \<le> 1022"
  shows "fl x = of_int (round_even (x * (2 ^ 52 * 2 ^ k))) / (2 ^ 52 * 2 ^ k)"
proof -
  have "(0::real) < 1 / 2 ^ k" by simp
  then have x: "0 < x" using assms(1) by linarith
  have p: "(2::real) powr of_int (- int k) = 1 / 2 ^ k"
    by (simp add: powr_minus powr_realpow field_simps)
  have "(2::real) powr (of_int (- int k) + 1) = 2 powr of_int (- int k) * 2 powr 1"
    by (simp only: powr_add)
  moreover have "(2::real) powr (- real k) = 1 / 2 ^ k"
    by (simp add: powr_minus powr_realpow field_simps)
  ultimately have q: "(2::real) powr (of_int (- int k) + 1) = 2 / 2 ^ k"
    by simp
  have "2 powr of_int (- int k) \<le> \<bar>x\<bar>" "\<bar>x\<bar> < 2 powr (of_int (- int k) + 1)"
    unfolding p q using assms(1,2) x by simp_all
  then have "expo x = - int k" using assms(3) by (intro expo_eq) simp_all
  then have u: "ulp x = 1 / (2 ^ 52 * 2 ^ k)"
    by (simp add: ulp_def powr_diff powr_realpow powr_minus field_simps)
  have "x / ulp x = x * (2 ^ 52 * 2 ^ k)"
    unfolding u by simp
  then show ?thesis unfolding fl_def by (simp add: u)
qed




lemma fl_half_more: "\<bar>fl x - x\<bar> \<le> max \<bar>x\<bar> (2 powr (- 1074)) / 2"
  using fl_err [of x] ulp_le_max [of x] by linarith

lemma fl_tenth: "fl (1 / 10) = 3602879701896397 / 36028797018963968"
  by (simp add: fl_binade_neg [where k = 4] round_even_def)

lemma is_double_pow2:
  assumes "- 1074 \<le> e"
  shows "is_double (2 powr of_int e)"
proof -
  define x :: real where "x = 2 powr of_int e"
  have x: "x = of_int 1 * 2 powr of_int e" by (simp add: x_def)
  have a: "\<bar>x\<bar> < 2 powr (of_int (max e (- 1022)) + 1)"
    unfolding x_def by (simp add: max_def)
  have "expo x \<le> max e (- 1022)" using a by (rule expo_le) simp
  then have "expo x - 52 \<le> e" using assms by (simp add: max_def split: if_splits)
  then have "fl x = x" using x by (intro fl_exact [where m = 1 and k = e]) simp_all
  then show ?thesis by (simp add: is_double_def x_def)
qed

lemma double_diff_ge:
  assumes "is_double c" "is_double t" "c < t"
  shows "2 powr (- 1074) \<le> t - c"
proof -
  obtain k :: int where k: "c = of_int k * 2 powr (- 1074)"
    using is_double_multiple [OF assms(1)] by blast
  obtain l :: int where l: "t = of_int l * 2 powr (- 1074)"
    using is_double_multiple [OF assms(2)] by blast
  have p: "(0::real) < 2 powr (- 1074)" by simp
  have "of_int k * 2 powr (- 1074) < of_int l * (2 powr (- 1074) :: real)"
    using assms(3) unfolding k l .
  then have "(of_int k :: real) < of_int l" using p by (simp only: mult_less_cancel_right_pos)
  then have "k + 1 \<le> l" by simp
  then have "(of_int k :: real) + 1 \<le> of_int l" by (metis of_int_1 of_int_add of_int_le_iff)
  then have "(of_int k + 1) * 2 powr (- 1074) \<le> of_int l * (2 powr (- 1074) :: real)"
    using p by (simp only: mult_le_cancel_right_pos)
  then show ?thesis unfolding k l by (simp add: algebra_simps)
qed

text \<open>The sign of a difference of doubles survives the rounding.\<close>

lemma fl_diff_neg:
  assumes "is_double x" "is_double r"
  shows "fl (x - r) < 0 \<longleftrightarrow> x - r < 0"
proof
  assume "fl (x - r) < 0"
  then show "x - r < 0" using fl_nonneg [of "x - r"] by (rule_tac ccontr) simp
next
  assume "x - r < 0"
  then have "2 powr (- 1074) \<le> r - x"
    using assms by (intro double_diff_ge) simp_all
  then have a: "x - r \<le> - (2 powr (- 1074))" by simp
  have "is_double (2 powr of_int (- 1074))" by (rule is_double_pow2) simp
  then have "is_double (- (2 powr (- 1074)))" by (simp add: is_double_minus)
  then have "fl (x - r) \<le> - (2 powr (- 1074))" using a by (intro fl_le_double)
  moreover have "(0::real) < 2 powr (- 1074)" by simp
  ultimately show "fl (x - r) < 0" by linarith
qed

text \<open>
  What the rounded sum may hide: if the nearest double to \<open>y\<close> is at most the double \<open>W\<close>,
  then \<open>y\<close> is at most half a unit in the last place above \<open>W\<close>.
\<close>

lemma fl_le_imp:
  assumes "is_double W" "0 \<le> W" "fl y \<le> W"
  shows "y \<le> W + ulp W / 2"
proof (rule ccontr)
  assume "\<not> y \<le> W + ulp W / 2"
  then have y: "W + ulp W / 2 < y" by simp
  have u: "0 < ulp W" by (rule ulp_pos)
  have y0: "0 < y" using y u assms(2) by linarith
  define T :: real where "T = 2 powr (of_int (expo W) + 1)"
  show False
  proof (cases "y < T")
    case True
    then have "\<bar>y\<bar> < 2 powr (of_int (expo W) + 1)" using y0 by (simp add: T_def)
    then have "expo y \<le> expo W" using expo_ge by (rule expo_le)
    then have "of_int (expo y) - 52 \<le> (of_int (expo W) - 52 :: real)" by simp
    then have "ulp y \<le> ulp W" unfolding ulp_def by simp
    moreover have "\<bar>fl y - y\<bar> \<le> ulp y / 2" by (rule fl_err)
    ultimately have "W < fl y" using y by linarith
    then show False using assms(3) by simp
  next
    case False
    then have "T \<le> y" by simp
    have "- 1074 \<le> expo W + 1" using expo_ge [of W] by linarith
    then have "is_double (2 powr of_int (expo W + 1))" by (rule is_double_pow2)
    then have "is_double T" by (simp add: T_def)
    then have "T \<le> fl y" using \<open>T \<le> y\<close> by (intro fl_ge_double)
    moreover have "\<bar>W\<bar> < 2 ^ 53 * ulp W" by (rule abs_lt_ulp)
    moreover have "2 ^ 53 * ulp W = T"
    proof -
      have "(2::real) ^ 53 = 2 powr 53" by simp
      then have "2 ^ 53 * ulp W = 2 powr 53 * 2 powr (of_int (expo W) - 52)"
        by (simp only: ulp_eq_powr)
      also have "\<dots> = 2 powr (53 + (of_int (expo W) - 52))" by (simp only: powr_add)
      also have "\<dots> = T" by (simp add: T_def add.commute)
      finally show ?thesis .
    qed
    ultimately show False using assms(3) by linarith
  qed
qed

lemma ulp_mono:
  assumes "\<bar>x\<bar> \<le> \<bar>y\<bar>"
  shows "ulp x \<le> ulp y"
proof -
  have "expo x \<le> expo y" using assms by (rule expo_mono)
  then have "of_int (expo x) - 52 \<le> (of_int (expo y) - 52 :: real)" by simp
  then show ?thesis unfolding ulp_def by simp
qed


section \<open>The steps of the update keep what they do not write\<close>

lemma hue_next_zero: "hue_next 0 = 1 / 2"
proof -
  have f: "fl (1 / 2) = 1 / 2"
    by (rule fl_exact_dyadic [where m = 1 and n = 1 and j = 0]) simp_all
  have "hue_next 0 = js_rem (fl (1 / 2)) 360"
    by (simp add: hue_next_def)
  also have "\<dots> = js_rem (1 / 2) 360"
    by (simp only: f)
  also have "\<dots> = 1 / 2"
    by (simp add: js_rem_def)
  finally show ?thesis .
qed

lemma repel_cases:
  "repel m p = Some p \<or>
   (\<exists>mx my. mouse_x m = Some mx \<and> mouse_y m = Some my \<and>
      sqrt ((pos_x p - mx) * (pos_x p - mx) + (pos_y p - my) * (pos_y p - my)) < repelRadius \<and>
      repel m p = Some (p\<lparr>velocity :=
        \<lparr>x_of = x_of (velocity p) + cos (atan2 (pos_y p - my) (pos_x p - mx)) *
                 ((repelRadius - sqrt ((pos_x p - mx) * (pos_x p - mx) + (pos_y p - my) * (pos_y p - my))) / repelRadius) * maxForce,
         y_of = y_of (velocity p) + sin (atan2 (pos_y p - my) (pos_x p - mx)) *
                 ((repelRadius - sqrt ((pos_x p - mx) * (pos_x p - mx) + (pos_y p - my) * (pos_y p - my))) / repelRadius) * maxForce\<rparr>\<rparr>))"
  by (simp add: repel_def js_div_def repelRadius_def Let_def split: option.splits)

lemma repel_frame:
  "\<exists>p'. repel m p = Some p' \<and> radius p' = radius p \<and> pos_x p' = pos_x p \<and>
        pos_y p' = pos_y p \<and> hue p' = hue p"
  using repel_cases [of m p] by auto

lemma speed_cap_frame:
  "\<exists>p'. speed_cap p = Some p' \<and> radius p' = radius p \<and> pos_x p' = pos_x p \<and>
        pos_y p' = pos_y p \<and> hue p' = hue p"
  by (simp add: speed_cap_def js_div_def maxSpeed_def Let_def)

lemma capped_frame:
  "\<exists>p'. capped m p = Some p' \<and> radius p' = radius p \<and> pos_x p' = pos_x p \<and>
        pos_y p' = pos_y p \<and> hue p' = hue_next (hue p)"
proof -
  obtain p1 where p1: "repel m (hue_step p) = Some p1" "radius p1 = radius (hue_step p)"
    "pos_x p1 = pos_x (hue_step p)" "pos_y p1 = pos_y (hue_step p)" "hue p1 = hue (hue_step p)"
    using repel_frame by blast
  obtain p3 where p3: "speed_cap (friction p1) = Some p3" "radius p3 = radius (friction p1)"
    "pos_x p3 = pos_x (friction p1)" "pos_y p3 = pos_y (friction p1)" "hue p3 = hue (friction p1)"
    using speed_cap_frame by blast
  show ?thesis using p1 p3 by (simp add: capped_def hue_step_def friction_def)
qed

lemma jitter_frame:
  "radius (fst (jitter p g)) = radius p \<and> pos_x (fst (jitter p g)) = pos_x p \<and>
   pos_y (fst (jitter p g)) = pos_y p \<and> hue (fst (jitter p g)) = hue p"
  by (simp add: jitter_def jitter_x_def jitter_y_def random_def Let_def split_beta)

lemma bounce_inside:
  assumes "2 * radius p \<le> width" "2 * radius p \<le> height"
  shows "radius (bounce width height p) = radius p \<and>
         radius p \<le> pos_x (bounce width height p) \<and>
         pos_x (bounce width height p) \<le> width - radius p \<and>
         radius p \<le> pos_y (bounce width height p) \<and>
         pos_y (bounce width height p) \<le> height - radius p"
  using assms by (simp add: bounce_def bounce_x_def bounce_y_def)

text \<open>
  A run used below: no pointer, velocity \<open>(0.3, 0.4)\<close>. Friction leaves \<open>(0.291, 0.388)\<close>,
  of speed \<open>0.485\<close>: no cap, no jitter.
\<close>

lemma capped_example:
  "capped \<lparr>mouse_x = None, mouse_y = None\<rparr>
     \<lparr>pos_x = 300, pos_y = 300, radius = 2, velocity = \<lparr>x_of = 0.3, y_of = 0.4\<rparr>, hue = 0\<rparr>
   = Some \<lparr>pos_x = 300, pos_y = 300, radius = 2,
           velocity = \<lparr>x_of = 0.291, y_of = 0.388\<rparr>, hue = 0.5\<rparr>"
proof -
  define p2 :: particle where
    "p2 = \<lparr>pos_x = 300, pos_y = 300, radius = 2,
           velocity = \<lparr>x_of = 0.291, y_of = 0.388\<rparr>, hue = 0.5\<rparr>"
  have sp: "speed_of (velocity p2) = 0.485"
    unfolding speed_of_def p2_def by (rule real_sqrt_unique) (simp_all add: power2_eq_square)
  have "friction \<lparr>pos_x = 300, pos_y = 300, radius = 2,
          velocity = \<lparr>x_of = 0.3, y_of = 0.4\<rparr>, hue = 0.5\<rparr> = p2"
    by (simp add: friction_def p2_def)
  moreover have "speed_cap p2 = Some p2"
    by (simp add: speed_cap_def sp maxSpeed_def)
  ultimately show ?thesis
    unfolding p2_def [symmetric] by (simp add: capped_def hue_step_def repel_def hue_next_zero)
qed

text \<open>The bounce in binary64, on one axis.\<close>

lemma bounce_axis64:
  assumes "is_double x" "is_double r" "is_double W" "0 \<le> r" "2 * r \<le> W"
  shows "r \<le> (if fl (x - r) < 0 then r else if fl (x + r) > W then fl (W - r) else x) \<and>
         (if fl (x - r) < 0 then r else if fl (x + r) > W then fl (W - r) else x)
           \<le> W - r + ulp W / 2"
proof -
  have u: "0 < ulp W" by (rule ulp_pos)
  have W0: "0 \<le> W" using assms(4,5) by linarith
  consider "fl (x - r) < 0" | "\<not> fl (x - r) < 0" "fl (x + r) > W"
    | "\<not> fl (x - r) < 0" "\<not> fl (x + r) > W" by blast
  then show ?thesis
  proof cases
    case 1
    then show ?thesis using assms(5) u by simp
  next
    case 2
    have a: "r \<le> fl (W - r)" using assms(2,5) by (intro fl_ge_double) simp_all
    have "\<bar>fl (W - r) - (W - r)\<bar> \<le> ulp (W - r) / 2" by (rule fl_err)
    moreover have "ulp (W - r) \<le> ulp W"
      using assms(4,5) by (intro ulp_mono) simp
    ultimately have "fl (W - r) \<le> W - r + ulp W / 2" by linarith
    then show ?thesis using 2 a by simp
  next
    case 3
    have "\<not> x - r < 0" using 3(1) fl_diff_neg [OF assms(1,2)] by simp
    moreover have "fl (x + r) \<le> W" using 3(2) by simp
    then have "x + r \<le> W + ulp W / 2" using assms(3) W0 by (intro fl_le_imp)
    ultimately show ?thesis using 3 by simp
  qed
qed

lemma bounce64_inside:
  assumes "is_double (pos_x q)" "is_double (pos_y q)" "is_double (radius q)"
    and "is_double width" "is_double height"
    and "0 \<le> radius q" "2 * radius q \<le> width" "2 * radius q \<le> height"
  shows "radius (bounce64 width height q) = radius q \<and>
         radius q \<le> pos_x (bounce64 width height q) \<and>
         pos_x (bounce64 width height q) \<le> width - radius q + ulp width / 2 \<and>
         radius q \<le> pos_y (bounce64 width height q) \<and>
         pos_y (bounce64 width height q) \<le> height - radius q + ulp height / 2"
proof -
  have r: "radius (bounce64 width height q) = radius q"
    by (simp add: bounce64_def bounce_x64_def bounce_y64_def)
  have x: "pos_x (bounce64 width height q) =
      (if fl (pos_x q - radius q) < 0 then radius q
       else if fl (pos_x q + radius q) > width then fl (width - radius q) else pos_x q)"
    by (simp add: bounce64_def bounce_x64_def bounce_y64_def)
  have y: "pos_y (bounce64 width height q) =
      (if fl (pos_y q - radius q) < 0 then radius q
       else if fl (pos_y q + radius q) > height then fl (height - radius q) else pos_y q)"
    by (simp add: bounce64_def bounce_x64_def bounce_y64_def)
  show ?thesis
    unfolding r x y
    using bounce_axis64 [OF assms(1,3,4,6,7)] bounce_axis64 [OF assms(2,3,5,6,8)]
    by (intro conjI) simp_all
qed

text \<open>
  The tolerance is needed. On a canvas 1024 wide, with the radius the double nearest to
  \<open>1.7\<close> and \<open>x\<close> the double next above the one nearest to \<open>1022.3\<close>, the sum \<open>x + radius\<close>
  rounds to 1024: the far-edge test fails, and \<open>x\<close> stays above \<open>width - radius\<close>.
\<close>

lemma bounce64_tolerance_example:
  "fl (8992245896603239 / 8796093022208 + 7656119366529843 / 4503599627370496) = 1024 \<and>
   pos_x (bounce_x64 1024
     \<lparr>pos_x = 8992245896603239 / 8796093022208, pos_y = 300,
      radius = 7656119366529843 / 4503599627370496,
      velocity = \<lparr>x_of = 0, y_of = 0\<rparr>, hue = 0\<rparr>) = 8992245896603239 / 8796093022208 \<and>
   1024 - 7656119366529843 / 4503599627370496 < (8992245896603239 / 8796093022208 :: real)"
  by (simp add: bounce_x64_def fl_binade [where k = 9] fl_binade [where k = 10] round_even_def)

section \<open>Position after the update\<close>

text \<open>
  C1, as amended. On a canvas at least as wide and as high as the particle's diameter,
  \<^verbatim>\<open>update()\<close> returns, leaves the radius as it was, and leaves the particle inside,
  \<open>radius \<le> x \<le> width - radius\<close> and \<open>radius \<le> y \<le> height - radius\<close>, within
  floating-point tolerance, whatever the particle's state, the pointer, the dark-mode
  class and the random numbers are. In exact arithmetic the four bounds hold as they
  stand. In binary64, whatever doubles \<open>q\<close> the earlier steps have left at the bounce, the
  lower bounds hold as they stand, and \<open>x\<close> is above \<open>width - radius\<close> by at most half a
  unit in the last place of the width (\<open>y\<close> likewise, of the height): the far-edge test
  compares the rounded sum \<open>x + radius\<close> with the width.
\<close>

theorem update_keeps_particle_inside:
  assumes "2 * radius p \<le> width" and "2 * radius p \<le> height"
  shows "(\<exists>p' g' c. update m width height dark p g = Some (p', g', c) \<and>
            radius p' = radius p \<and>
            radius p' \<le> pos_x p' \<and> pos_x p' \<le> width - radius p' \<and>
            radius p' \<le> pos_y p' \<and> pos_y p' \<le> height - radius p') \<and>
         (is_double (pos_x q) \<and> is_double (pos_y q) \<and> is_double (radius q) \<and>
          is_double width \<and> is_double height \<and> 0 \<le> radius q \<and>
          2 * radius q \<le> width \<and> 2 * radius q \<le> height \<longrightarrow>
            radius (bounce64 width height q) = radius q \<and>
            radius q \<le> pos_x (bounce64 width height q) \<and>
            pos_x (bounce64 width height q) \<le> width - radius q + ulp width / 2 \<and>
            radius q \<le> pos_y (bounce64 width height q) \<and>
            pos_y (bounce64 width height q) \<le> height - radius q + ulp height / 2)"
proof -
  obtain p3 where p3: "capped m p = Some p3" "radius p3 = radius p"
    using capped_frame by blast
  define p5 where "p5 = integrate (fst (jitter p3 g))"
  have r5: "radius p5 = radius p"
    using p3 jitter_frame [of p3 g] by (simp add: p5_def integrate_def)
  have "update m width height dark p g =
          Some (bounce width height p5, snd (jitter p3 g), draw dark (bounce width height p5))"
    using p3 by (simp add: update_def p5_def split_beta Let_def)
  moreover note bounce_inside [of p5 width height] r5 assms
  ultimately have exact: "\<exists>p' g' c. update m width height dark p g = Some (p', g', c) \<and>
            radius p' = radius p \<and>
            radius p' \<le> pos_x p' \<and> pos_x p' \<le> width - radius p' \<and>
            radius p' \<le> pos_y p' \<and> pos_y p' \<le> height - radius p'"
    by simp
  show ?thesis using exact bounce64_inside [of q width height] by blast
qed

theorem update_keeps_particle_inside_witness:
  "2 * radius \<lparr>pos_x = 300, pos_y = 300, radius = 2,
                velocity = \<lparr>x_of = 0.3, y_of = 0.4\<rparr>, hue = 0\<rparr> \<le> (1024::real)
   \<and> 2 * radius \<lparr>pos_x = 300, pos_y = 300, radius = 2,
                  velocity = \<lparr>x_of = 0.3, y_of = 0.4\<rparr>, hue = 0\<rparr> \<le> (768::real)
   \<and> (\<exists>p' g' c.
         update \<lparr>mouse_x = Some 310, mouse_y = Some 290\<rparr> 1024 768 True
           \<lparr>pos_x = 300, pos_y = 300, radius = 2,
            velocity = \<lparr>x_of = 0.3, y_of = 0.4\<rparr>, hue = 0\<rparr> (sconst 0)
         = Some (p', g', c) \<and> radius p' = 2 \<and>
         radius p' \<le> pos_x p' \<and> pos_x p' \<le> 1024 - radius p' \<and>
         radius p' \<le> pos_y p' \<and> pos_y p' \<le> 768 - radius p')
   \<and> is_double (8992245896603239 / 8796093022208) \<and> is_double 300
   \<and> is_double (7656119366529843 / 4503599627370496)
   \<and> is_double 1024 \<and> is_double 768
   \<and> (0::real) \<le> 7656119366529843 / 4503599627370496
   \<and> 2 * (7656119366529843 / 4503599627370496) \<le> (768::real)
   \<and> 7656119366529843 / 4503599627370496
        \<le> pos_x (bounce64 1024 768
              \<lparr>pos_x = 8992245896603239 / 8796093022208, pos_y = 300,
               radius = 7656119366529843 / 4503599627370496,
               velocity = \<lparr>x_of = 0, y_of = 0\<rparr>, hue = 0\<rparr>)
   \<and> pos_x (bounce64 1024 768
              \<lparr>pos_x = 8992245896603239 / 8796093022208, pos_y = 300,
               radius = 7656119366529843 / 4503599627370496,
               velocity = \<lparr>x_of = 0, y_of = 0\<rparr>, hue = 0\<rparr>)
        \<le> 1024 - 7656119366529843 / 4503599627370496 + ulp 1024 / 2"
proof -
  define P :: particle where "P = \<lparr>pos_x = 300, pos_y = 300, radius = 2,
                velocity = \<lparr>x_of = 0.3, y_of = 0.4\<rparr>, hue = 0\<rparr>"
  define Q :: particle where "Q = \<lparr>pos_x = 8992245896603239 / 8796093022208, pos_y = 300,
               radius = 7656119366529843 / 4503599627370496,
               velocity = \<lparr>x_of = 0, y_of = 0\<rparr>, hue = 0\<rparr>"
  have h: "2 * radius P \<le> (1024::real)" "2 * radius P \<le> (768::real)"
    by (simp_all add: P_def)
  have "fl (8992245896603239 / 8796093022208) = 8992245896603239 / 8796093022208"
    by (rule fl_exact_dyadic [where m = 8992245896603239 and n = 43 and j = 10]) simp_all
  moreover have "fl (7656119366529843 / 4503599627370496) = 7656119366529843 / 4503599627370496"
    by (rule fl_exact_dyadic [where m = 7656119366529843 and n = 52 and j = 1]) simp_all
  moreover have "fl 300 = 300"
    by (rule fl_exact_dyadic [where m = 300 and n = 0 and j = 10]) simp_all
  moreover have "fl 1024 = 1024"
    by (rule fl_exact_dyadic [where m = 1024 and n = 0 and j = 11]) simp_all
  moreover have "fl 768 = 768"
    by (rule fl_exact_dyadic [where m = 768 and n = 0 and j = 10]) simp_all
  ultimately have d: "is_double (8992245896603239 / 8796093022208)" "is_double 300"
    "is_double (7656119366529843 / 4503599627370496)" "is_double 1024" "is_double 768"
    by (simp_all only: is_double_def)
  have q: "pos_x Q = 8992245896603239 / 8796093022208" "pos_y Q = 300"
    "radius Q = 7656119366529843 / 4503599627370496"
    by (simp_all add: Q_def)
  have r: "(0::real) \<le> 7656119366529843 / 4503599627370496"
    "2 * (7656119366529843 / 4503599627370496) \<le> (768::real)"
    "2 * (7656119366529843 / 4503599627370496) \<le> (1024::real)"
    by simp_all
  note T = update_keeps_particle_inside [OF h, of "\<lparr>mouse_x = Some 310, mouse_y = Some 290\<rparr>" True
      "sconst 0" Q, unfolded q]
  have a: "\<exists>p' g' c.
         update \<lparr>mouse_x = Some 310, mouse_y = Some 290\<rparr> 1024 768 True P (sconst 0)
         = Some (p', g', c) \<and> radius p' = 2 \<and>
         radius p' \<le> pos_x p' \<and> pos_x p' \<le> 1024 - radius p' \<and>
         radius p' \<le> pos_y p' \<and> pos_y p' \<le> 768 - radius p'"
    using T [THEN conjunct1] by (simp add: P_def)
  have b: "7656119366529843 / 4503599627370496 \<le> pos_x (bounce64 1024 768 Q)"
    "pos_x (bounce64 1024 768 Q) \<le> 1024 - 7656119366529843 / 4503599627370496 + ulp 1024 / 2"
    using T [THEN conjunct2] d r by blast+
  show ?thesis
    using h a d r(1,2) b unfolding P_def Q_def by (intro conjI)
qed

text \<open>
  C1 as stated fails on a canvas narrower than the particle: the window is 3 pixels wide
  (the \<^verbatim>\<open>resize\<close> listener has set the canvas to that), the particle has radius 2 and is at
  \<open>x = 300\<close>. The far-edge branch puts it at \<open>3 - 2 = 1\<close>, which is less than its radius.
\<close>

theorem narrow_canvas_counterexample:
  "update \<lparr>mouse_x = None, mouse_y = None\<rparr> 3 600 False
     \<lparr>pos_x = 300, pos_y = 300, radius = 2, velocity = \<lparr>x_of = 0.3, y_of = 0.4\<rparr>, hue = 0\<rparr>
     (sconst 0)
   = Some (\<lparr>pos_x = 1, pos_y = 300.388, radius = 2,
            velocity = \<lparr>x_of = - 0.1455, y_of = 0.388\<rparr>, hue = 0.5\<rparr>,
           sconst 0,
           \<lparr>fill_hue = 0.5, fill_lightness = ''50%'', arc_x = 1, arc_y = 300.388,
            arc_radius = 2\<rparr>)
   \<and> \<not> (radius \<lparr>pos_x = 1, pos_y = 300.388, radius = 2,
                  velocity = \<lparr>x_of = - 0.1455, y_of = 0.388\<rparr>, hue = 0.5\<rparr>
          \<le> pos_x \<lparr>pos_x = 1, pos_y = 300.388, radius = 2,
                    velocity = \<lparr>x_of = - 0.1455, y_of = 0.388\<rparr>, hue = 0.5\<rparr>)"
proof -
  have "jitter \<lparr>pos_x = 300, pos_y = 300, radius = 2,
          velocity = \<lparr>x_of = 0.291, y_of = 0.388\<rparr>, hue = 0.5\<rparr> (sconst 0)
        = (\<lparr>pos_x = 300, pos_y = 300, radius = 2,
            velocity = \<lparr>x_of = 0.291, y_of = 0.388\<rparr>, hue = 0.5\<rparr>, sconst 0)"
    by (simp add: jitter_def jitter_x_def jitter_y_def)
  then show ?thesis
    unfolding update_def capped_example
    by (simp add: integrate_def bounce_def bounce_x_def bounce_y_def draw_def
        getParticleColors_def)
qed

section \<open>Speed after the update\<close>

lemma speed_of_scaled:
  "speed_of \<lparr>x_of = a * k, y_of = b * k\<rparr> = \<bar>k\<bar> * speed_of \<lparr>x_of = a, y_of = b\<rparr>"
proof -
  have "a * k * (a * k) + b * k * (b * k) = k\<^sup>2 * (a * a + b * b)"
    by (simp add: power2_eq_square algebra_simps)
  then show ?thesis
    by (simp add: speed_of_def real_sqrt_mult)
qed

lemma speed_cap_bound:
  "\<exists>p'. speed_cap p = Some p' \<and> speed_of (velocity p') \<le> maxSpeed"
proof (cases "speed_of (velocity p) > maxSpeed")
  case False
  then show ?thesis by (simp add: speed_cap_def)
next
  case True
  define s where "s = speed_of (velocity p)"
  have s: "0 < s" using True by (simp add: s_def maxSpeed_def)
  have eq: "speed_cap p = Some (p\<lparr>velocity :=
      \<lparr>x_of = x_of (velocity p) / s * maxSpeed, y_of = y_of (velocity p) / s * maxSpeed\<rparr>\<rparr>)"
    using True s by (simp add: speed_cap_def js_div_def s_def Let_def)
  have "speed_of \<lparr>x_of = x_of (velocity p) * (maxSpeed / s), y_of = y_of (velocity p) * (maxSpeed / s)\<rparr>
        = \<bar>maxSpeed / s\<bar> * speed_of \<lparr>x_of = x_of (velocity p), y_of = y_of (velocity p)\<rparr>"
    by (rule speed_of_scaled)
  also have "speed_of \<lparr>x_of = x_of (velocity p), y_of = y_of (velocity p)\<rparr> = s"
    by (simp add: s_def speed_of_def)
  also have "\<bar>maxSpeed / s\<bar> * s = maxSpeed"
    using s by (simp add: maxSpeed_def)
  finally have "speed_of \<lparr>x_of = x_of (velocity p) / s * maxSpeed, y_of = y_of (velocity p) / s * maxSpeed\<rparr> = maxSpeed"
    by (simp add: field_simps)
  then show ?thesis using eq by simp
qed

lemma jitter_velocity:
  "velocity (fst (jitter p g)) =
     \<lparr>x_of = x_of (velocity p) +
              (if \<bar>x_of (velocity p)\<bar> < 0.05 then (shd g - 0.5) * 0.05 else 0),
      y_of = y_of (velocity p) +
              (if \<bar>y_of (velocity p)\<bar> < 0.05
               then (shd (if \<bar>x_of (velocity p)\<bar> < 0.05 then stl g else g) - 0.5) * 0.05
               else 0)\<rparr>"
  by (cases "velocity p") (simp add: jitter_def jitter_x_def jitter_y_def random_def)

lemma square_add_bound:
  fixes a c :: real
  assumes "\<bar>a\<bar> \<le> A" "\<bar>c\<bar> \<le> C"
  shows "(a + c) * (a + c) \<le> a * a + 2 * (A * C) + C * C"
proof -
  have A: "0 \<le> A" and C: "0 \<le> C" using assms by linarith+
  have "\<bar>a * c\<bar> \<le> A * C"
    unfolding abs_mult using assms by (intro mult_mono) simp_all
  then have 1: "a * c \<le> A * C" by linarith
  have "\<bar>c\<bar> * \<bar>c\<bar> \<le> C * C" using assms(2) by (intro mult_mono) simp_all
  then have 2: "c * c \<le> C * C" by (simp add: abs_mult_self_eq)
  have "(a + c) * (a + c) = a * a + 2 * (a * c) + c * c" by (simp add: algebra_simps)
  then show ?thesis using 1 2 by linarith
qed

lemma square_small:
  fixes a :: real
  assumes "\<bar>a\<bar> \<le> A"
  shows "a * a \<le> A * A"
proof -
  have "\<bar>a\<bar> * \<bar>a\<bar> \<le> A * A" using assms by (intro mult_mono) simp_all
  then show ?thesis by (simp add: abs_mult_self_eq)
qed

text \<open>
  The jitter adds at most \<open>0.025\<close>, and only to a component that is below \<open>0.05\<close>: the
  square of the speed grows by at most \<open>2 * 0.05 * 0.025 + 0.025\<^sup>2 = 0.003125\<close>.
\<close>

lemma jitter_speed_tight:
  assumes "unit_interval (shd g)" and "unit_interval (shd (stl g))"
    and "speed_of (velocity p) \<le> 1.5"
  shows "speed_of (velocity (fst (jitter p g))) \<le> sqrt 2.253125"
proof -
  define vx where "vx = x_of (velocity p)"
  define vy where "vy = y_of (velocity p)"
  have r: "\<bar>(r - 0.5) * 0.05\<bar> \<le> 0.025" if "unit_interval r" for r
    using that by (simp add: unit_interval_def abs_if)
  have b: "\<bar>(shd g - 0.5) * 0.05\<bar> \<le> 0.025" "\<bar>(shd (stl g) - 0.5) * 0.05\<bar> \<le> 0.025"
    using r assms(1,2) by blast+
  define c where "c = (if \<bar>vx\<bar> < 0.05 then (shd g - 0.5) * 0.05 else 0)"
  define d where "d = (if \<bar>vy\<bar> < 0.05
               then (shd (if \<bar>vx\<bar> < 0.05 then stl g else g) - 0.5) * 0.05
               else 0)"
  have cd: "\<bar>c\<bar> \<le> 1 / 40" "\<bar>d\<bar> \<le> 1 / 40"
    using b by (auto simp: c_def d_def)
  have v: "velocity (fst (jitter p g)) = \<lparr>x_of = vx + c, y_of = vy + d\<rparr>"
    unfolding c_def d_def vx_def vy_def by (rule jitter_velocity)
  have "sqrt (vx * vx + vy * vy) \<le> 3 / 2"
    using assms(3) by (simp add: speed_of_def vx_def vy_def)
  then have "vx * vx + vy * vy \<le> (3 / 2)\<^sup>2"
    by (rule sqrt_le_D)
  then have q: "vx * vx + vy * vy \<le> 9 / 4" by (simp add: power2_eq_square)
  have nx: "0 \<le> vx * vx" and ny: "0 \<le> vy * vy" by simp_all
  have "(vx + c) * (vx + c) + (vy + d) * (vy + d) \<le> 2.253125"
  proof (cases "\<bar>vx\<bar> < 0.05")
    case True
    then have x: "\<bar>vx\<bar> \<le> 1 / 20" by simp
    have 1: "(vx + c) * (vx + c) \<le> vx * vx + 2 * (1 / 20 * (1 / 40)) + 1 / 40 * (1 / 40)"
      using x cd(1) by (rule square_add_bound)
    show ?thesis
    proof (cases "\<bar>vy\<bar> < 0.05")
      case True
      then have y: "\<bar>vy\<bar> \<le> 1 / 20" by simp
      have 2: "(vy + d) * (vy + d) \<le> vy * vy + 2 * (1 / 20 * (1 / 40)) + 1 / 40 * (1 / 40)"
        using y cd(2) by (rule square_add_bound)
      have "vx * vx \<le> 1 / 20 * (1 / 20)" using x by (rule square_small)
      moreover have "vy * vy \<le> 1 / 20 * (1 / 20)" using y by (rule square_small)
      ultimately show ?thesis using 1 2 by simp
    next
      case False
      then have "d = 0" by (simp add: d_def)
      then show ?thesis using 1 q by simp
    qed
  next
    case False
    then have c0: "c = 0" by (simp add: c_def)
    show ?thesis
    proof (cases "\<bar>vy\<bar> < 0.05")
      case True
      then have y: "\<bar>vy\<bar> \<le> 1 / 20" by simp
      have 2: "(vy + d) * (vy + d) \<le> vy * vy + 2 * (1 / 20 * (1 / 40)) + 1 / 40 * (1 / 40)"
        using y cd(2) by (rule square_add_bound)
      show ?thesis using 2 q c0 by simp
    next
      case False
      then have "d = 0" by (simp add: d_def)
      then show ?thesis using q c0 by simp
    qed
  qed
  then have "sqrt ((vx + c) * (vx + c) + (vy + d) * (vy + d)) \<le> sqrt 2.253125"
    by (simp only: real_sqrt_le_iff)
  then show ?thesis unfolding v by (simp add: speed_of_def)
qed

lemma jitter_idle:
  assumes "0.05 \<le> \<bar>x_of (velocity p)\<bar>" "0.05 \<le> \<bar>y_of (velocity p)\<bar>"
  shows "jitter p g = (p, g)"
  using assms by (simp add: jitter_def jitter_x_def jitter_y_def)

lemma speed_of_mono:
  assumes "\<bar>x_of v\<bar> \<le> \<bar>x_of w\<bar>" "\<bar>y_of v\<bar> \<le> \<bar>y_of w\<bar>"
  shows "speed_of v \<le> speed_of w"
proof -
  have "(x_of v)\<^sup>2 \<le> (x_of w)\<^sup>2" "(y_of v)\<^sup>2 \<le> (y_of w)\<^sup>2"
    using assms by (simp_all add: abs_le_square_iff [symmetric])
  then have "(x_of v)\<^sup>2 + (y_of v)\<^sup>2 \<le> (x_of w)\<^sup>2 + (y_of w)\<^sup>2"
    by (rule add_mono)
  then show ?thesis
    by (simp add: speed_of_def power2_eq_square)
qed

lemma bounce_speed:
  "speed_of (velocity (bounce width height (integrate p))) \<le> speed_of (velocity p)"
proof (rule speed_of_mono)
  show "\<bar>x_of (velocity (bounce width height (integrate p)))\<bar> \<le> \<bar>x_of (velocity p)\<bar>"
    by (simp add: bounce_def bounce_x_def bounce_y_def integrate_def abs_mult)
  show "\<bar>y_of (velocity (bounce width height (integrate p)))\<bar> \<le> \<bar>y_of (velocity p)\<bar>"
    by (simp add: bounce_def bounce_x_def bounce_y_def integrate_def abs_mult)
qed


lemma speed_bound_value: "sqrt 2.253125 < (1.50105 :: real)"
  by (rule real_less_lsqrt) (simp_all add: power2_eq_square)

text \<open>
  C2, as amended. With random numbers in \<open>[0, 1)\<close>, \<^verbatim>\<open>update()\<close> returns; within
  floating-point tolerance, the speed \<open>sqrt (vx\<^sup>2 + vy\<^sup>2)\<close> is at most \<open>maxSpeed = 1.5\<close>
  after the friction and speed-cap steps; at the end of the update it is at most
  \<open>sqrt 2.253125\<close>, which is less than \<open>1.50105\<close>, and at most \<open>1.5\<close> when the idle jitter
  is taken on neither axis (then no random number is read either). The bounds are those
  of exact arithmetic.
\<close>

theorem update_speed_bound:
  assumes "unit_interval (shd g)" and "unit_interval (shd (stl g))"
  shows "\<exists>p3 p' g' c.
           capped m p = Some p3 \<and> update m width height dark p g = Some (p', g', c) \<and>
           speed_of (velocity p3) \<le> maxSpeed \<and>
           speed_of (velocity p') \<le> sqrt 2.253125 \<and>
           speed_of (velocity p') < 1.50105 \<and>
           (0.05 \<le> \<bar>x_of (velocity p3)\<bar> \<and> 0.05 \<le> \<bar>y_of (velocity p3)\<bar> \<longrightarrow>
              g' = g \<and> speed_of (velocity p') \<le> maxSpeed)"
proof -
  obtain p1 where p1: "repel m (hue_step p) = Some p1"
    using repel_frame by blast
  obtain p3 where p3: "speed_cap (friction p1) = Some p3" "speed_of (velocity p3) \<le> maxSpeed"
    using speed_cap_bound by blast
  have c: "capped m p = Some p3"
    using p1 p3 by (simp add: capped_def)
  define p4 where "p4 = fst (jitter p3 g)"
  define p6 where "p6 = bounce width height (integrate p4)"
  have u: "update m width height dark p g = Some (p6, snd (jitter p3 g), draw dark p6)"
    using c by (simp add: update_def p4_def p6_def split_beta Let_def)
  have s6: "speed_of (velocity p6) \<le> speed_of (velocity p4)"
    unfolding p6_def by (rule bounce_speed)
  have "speed_of (velocity p3) \<le> 1.5" using p3(2) by (simp add: maxSpeed_def)
  then have s4: "speed_of (velocity p4) \<le> sqrt 2.253125"
    unfolding p4_def using assms by (intro jitter_speed_tight)
  have general: "speed_of (velocity p6) \<le> sqrt 2.253125"
    using s6 s4 by linarith
  have strict: "speed_of (velocity p6) < 1.50105"
    using general speed_bound_value by linarith
  have idle: "snd (jitter p3 g) = g \<and> speed_of (velocity p6) \<le> maxSpeed"
    if "0.05 \<le> \<bar>x_of (velocity p3)\<bar> \<and> 0.05 \<le> \<bar>y_of (velocity p3)\<bar>"
  proof -
    have "jitter p3 g = (p3, g)" using that by (simp add: jitter_idle)
    then show ?thesis using s6 p3(2) by (simp add: p4_def)
  qed
  show ?thesis using c u p3(2) general strict idle by blast
qed

text \<open>
  A run used below: no pointer, velocity \<open>(0, 2)\<close>. Friction leaves \<open>(0, 1.94)\<close>, faster
  than \<open>maxSpeed\<close>, and the cap rescales it to \<open>(0, 1.5)\<close>.
\<close>

lemma capped_fast_example:
  "capped \<lparr>mouse_x = None, mouse_y = None\<rparr>
     \<lparr>pos_x = 300, pos_y = 300, radius = 2, velocity = \<lparr>x_of = 0, y_of = 2\<rparr>, hue = 0\<rparr>
   = Some \<lparr>pos_x = 300, pos_y = 300, radius = 2,
           velocity = \<lparr>x_of = 0, y_of = 1.5\<rparr>, hue = 0.5\<rparr>"
proof -
  define p2 :: particle where
    "p2 = \<lparr>pos_x = 300, pos_y = 300, radius = 2,
           velocity = \<lparr>x_of = 0, y_of = 1.94\<rparr>, hue = 0.5\<rparr>"
  have sp: "speed_of (velocity p2) = 1.94"
    unfolding speed_of_def p2_def by (rule real_sqrt_unique) (simp_all add: power2_eq_square)
  have "friction \<lparr>pos_x = 300, pos_y = 300, radius = 2,
          velocity = \<lparr>x_of = 0, y_of = 2\<rparr>, hue = 0.5\<rparr> = p2"
    by (simp add: friction_def p2_def)
  moreover have "speed_cap p2 = Some \<lparr>pos_x = 300, pos_y = 300, radius = 2,
           velocity = \<lparr>x_of = 0, y_of = 1.5\<rparr>, hue = 0.5\<rparr>"
    unfolding speed_cap_def sp Let_def by (simp add: maxSpeed_def js_div_def p2_def)
  ultimately show ?thesis
    by (simp add: capped_def hue_step_def repel_def hue_next_zero)
qed

text \<open>
  C2 as stated fails: the idle jitter runs after the speed cap. From velocity \<open>(0, 2)\<close> the
  cap leaves \<open>(0, 1.5)\<close>; \<open>|vx| < 0.05\<close>, so with \<^verbatim>\<open>Math.random()\<close> returning \<open>0.9\<close> the
  jitter adds \<open>0.02\<close> to \<open>vx\<close>, and the speed at the end is \<open>sqrt 2.2504 > 1.5\<close>.
\<close>

theorem jitter_after_cap_counterexample:
  "update \<lparr>mouse_x = None, mouse_y = None\<rparr> 1024 768 False
     \<lparr>pos_x = 300, pos_y = 300, radius = 2, velocity = \<lparr>x_of = 0, y_of = 2\<rparr>, hue = 0\<rparr>
     (sconst 0.9)
   = Some (\<lparr>pos_x = 300.02, pos_y = 301.5, radius = 2,
            velocity = \<lparr>x_of = 0.02, y_of = 1.5\<rparr>, hue = 0.5\<rparr>,
           sconst 0.9,
           \<lparr>fill_hue = 0.5, fill_lightness = ''50%'', arc_x = 300.02, arc_y = 301.5,
            arc_radius = 2\<rparr>)
   \<and> \<not> (speed_of (velocity \<lparr>pos_x = 300.02, pos_y = 301.5, radius = 2,
            velocity = \<lparr>x_of = 0.02, y_of = 1.5\<rparr>, hue = 0.5\<rparr>) \<le> maxSpeed)"
proof -
  have j: "jitter \<lparr>pos_x = 300, pos_y = 300, radius = 2,
          velocity = \<lparr>x_of = 0, y_of = 1.5\<rparr>, hue = 0.5\<rparr> (sconst 0.9)
        = (\<lparr>pos_x = 300, pos_y = 300, radius = 2,
            velocity = \<lparr>x_of = 0.02, y_of = 1.5\<rparr>, hue = 0.5\<rparr>, sconst 0.9)"
    by (simp add: jitter_def jitter_x_def jitter_y_def random_def)
  have "(1.5::real)\<^sup>2 < 0.02 * 0.02 + 1.5 * 1.5"
    by (simp add: power2_eq_square)
  then have "(1.5::real) < sqrt (0.02 * 0.02 + 1.5 * 1.5)"
    by (rule real_less_rsqrt)
  then have "\<not> speed_of \<lparr>x_of = 0.02, y_of = 1.5\<rparr> \<le> maxSpeed"
    by (simp add: speed_of_def maxSpeed_def)
  with j show ?thesis
    unfolding update_def capped_fast_example
    by (simp add: integrate_def bounce_def bounce_x_def bounce_y_def draw_def
        getParticleColors_def)
qed

theorem update_speed_bound_witness:
  "unit_interval (shd (sconst 0.9)) \<and> unit_interval (shd (stl (sconst 0.9))) \<and>
   (\<exists>p3 p' g' c.
      capped \<lparr>mouse_x = None, mouse_y = None\<rparr>
        \<lparr>pos_x = 300, pos_y = 300, radius = 2, velocity = \<lparr>x_of = 0.3, y_of = 0.4\<rparr>, hue = 0\<rparr>
      = Some p3 \<and>
      update \<lparr>mouse_x = None, mouse_y = None\<rparr> 1024 768 False
        \<lparr>pos_x = 300, pos_y = 300, radius = 2, velocity = \<lparr>x_of = 0.3, y_of = 0.4\<rparr>, hue = 0\<rparr>
        (sconst 0.9)
      = Some (p', g', c) \<and>
      0.05 \<le> \<bar>x_of (velocity p3)\<bar> \<and> 0.05 \<le> \<bar>y_of (velocity p3)\<bar> \<and>
      g' = sconst 0.9 \<and>
      speed_of (velocity p3) \<le> maxSpeed \<and>
      speed_of (velocity p') \<le> sqrt 2.253125 \<and>
      speed_of (velocity p') < 1.50105 \<and>
      speed_of (velocity p') \<le> maxSpeed)"
proof -
  have h: "unit_interval (shd (sconst 0.9))" "unit_interval (shd (stl (sconst 0.9)))"
    by (simp_all add: unit_interval_def)
  show ?thesis
    using update_speed_bound [OF h, of "\<lparr>mouse_x = None, mouse_y = None\<rparr>"
      "\<lparr>pos_x = 300, pos_y = 300, radius = 2, velocity = \<lparr>x_of = 0.3, y_of = 0.4\<rparr>, hue = 0\<rparr>"
      1024 768 False]
    unfolding capped_example by (simp add: unit_interval_def)
qed

section \<open>The repulsion step\<close>

lemma atan2_origin: "atan2 0 0 = 0"
  by (simp add: atan2_def)

text \<open>
  The angle is the direction from the pointer to the particle: its cosine and sine are
  \<open>dx / dist\<close> and \<open>dy / dist\<close>.
\<close>

lemma cos_sin_atan2:
  assumes "x \<noteq> 0 \<or> y \<noteq> 0"
  shows "cos (atan2 y x) = x / sqrt (x * x + y * y) \<and>
         sin (atan2 y x) = y / sqrt (x * x + y * y)"
proof -
  have pos: "cos (arctan (y / x)) = \<bar>x\<bar> / sqrt (x * x + y * y) \<and>
             sin (arctan (y / x)) = (y / x) * \<bar>x\<bar> / sqrt (x * x + y * y)" if "x \<noteq> 0"
  proof -
    have "1 + (y / x)\<^sup>2 = (x * x + y * y) / x\<^sup>2"
      using that by (simp add: field_simps power2_eq_square)
    then have "sqrt (1 + (y / x)\<^sup>2) = sqrt (x * x + y * y) / \<bar>x\<bar>"
      by (simp add: real_sqrt_divide)
    then show ?thesis
      by (simp add: cos_arctan sin_arctan)
  qed
  consider "0 < x" | "x < 0" | "x = 0" "0 < y" | "x = 0" "y < 0"
    using assms by linarith
  then show ?thesis
  proof cases
    case 1
    then show ?thesis using pos by (simp add: atan2_def)
  next
    case 2
    then show ?thesis using pos by (simp add: atan2_def)
  next
    case 3
    then show ?thesis by (simp add: atan2_def)
  next
    case 4
    then show ?thesis by (simp add: atan2_def)
  qed
qed


lemma gain_magnitude:
  assumes "0 \<le> f"
  shows "speed_of \<lparr>x_of = cos a * f * maxForce, y_of = sin a * f * maxForce\<rparr> = f * maxForce"
proof -
  define K where "K = f * maxForce"
  have K: "0 \<le> K" using assms by (simp add: K_def maxForce_def)
  have "(cos a * K)\<^sup>2 + (sin a * K)\<^sup>2 = ((cos a)\<^sup>2 + (sin a)\<^sup>2) * K\<^sup>2"
    by (simp only: power_mult_distrib distrib_right)
  also have "\<dots> = K\<^sup>2" by simp
  finally have "sqrt ((cos a * K)\<^sup>2 + (sin a * K)\<^sup>2) = K"
    using K by simp
  then have "speed_of \<lparr>x_of = cos a * K, y_of = sin a * K\<rparr> = K"
    by (simp add: speed_of_def power2_eq_square)
  then show ?thesis
    by (simp add: K_def mult.assoc)
qed

text \<open>
  C3. With the pointer present at \<open>(mx, my)\<close> and \<open>dist < 100\<close>, the repulsion step adds
  \<open>cos angle * force * 2\<close> to \<open>velocity.x\<close> and \<open>sin angle * force * 2\<close> to \<open>velocity.y\<close>,
  where \<open>angle = atan2 (y - my) (x - mx)\<close> and \<open>force = (100 - dist) / 100\<close>: a gain of
  magnitude \<open>force * 2\<close> along that angle. With a coordinate of the pointer undefined,
  or with \<open>dist \<ge> 100\<close>, the step leaves the particle as it is.
\<close>

theorem repel_step:
  "(\<forall>mx my. mouse_x m = Some mx \<and> mouse_y m = Some my \<longrightarrow>
      (let dx = pos_x p - mx;
           dy = pos_y p - my;
           dist = sqrt (dx * dx + dy * dy);
           angle = atan2 dy dx;
           force = (100 - dist) / 100
       in (dist < 100 \<longrightarrow>
             repel m p = Some (p\<lparr>velocity :=
               \<lparr>x_of = x_of (velocity p) + cos angle * force * 2,
                y_of = y_of (velocity p) + sin angle * force * 2\<rparr>\<rparr>) \<and>
             speed_of \<lparr>x_of = cos angle * force * 2, y_of = sin angle * force * 2\<rparr>
               = force * 2) \<and>
          (100 \<le> dist \<longrightarrow> repel m p = Some p))) \<and>
   (mouse_x m = None \<or> mouse_y m = None \<longrightarrow> repel m p = Some p)"
proof -
  have near: "repel m p = Some (p\<lparr>velocity :=
               \<lparr>x_of = x_of (velocity p) + cos (atan2 dy dx) * ((100 - dist) / 100) * 2,
                y_of = y_of (velocity p) + sin (atan2 dy dx) * ((100 - dist) / 100) * 2\<rparr>\<rparr>) \<and>
             speed_of \<lparr>x_of = cos (atan2 dy dx) * ((100 - dist) / 100) * 2,
                       y_of = sin (atan2 dy dx) * ((100 - dist) / 100) * 2\<rparr>
               = ((100 - dist) / 100) * 2"
    if "mouse_x m = Some mx" "mouse_y m = Some my" "dx = pos_x p - mx" "dy = pos_y p - my"
       "dist = sqrt (dx * dx + dy * dy)" "dist < 100" for mx my dx dy dist
  proof -
    have "0 \<le> (100 - dist) / 100"
      using that by simp
    then have "speed_of \<lparr>x_of = cos (atan2 dy dx) * ((100 - dist) / 100) * maxForce,
                       y_of = sin (atan2 dy dx) * ((100 - dist) / 100) * maxForce\<rparr>
               = ((100 - dist) / 100) * maxForce"
      by (rule gain_magnitude)
    moreover have "repel m p = Some (p\<lparr>velocity :=
               \<lparr>x_of = x_of (velocity p) + cos (atan2 dy dx) * ((100 - dist) / 100) * maxForce,
                y_of = y_of (velocity p) + sin (atan2 dy dx) * ((100 - dist) / 100) * maxForce\<rparr>\<rparr>)"
      using that by (simp add: repel_def js_div_def repelRadius_def Let_def)
    ultimately show ?thesis by (simp add: maxForce_def)
  qed
  have far: "repel m p = Some p"
    if "mouse_x m = Some mx" "mouse_y m = Some my"
       "100 \<le> sqrt ((pos_x p - mx) * (pos_x p - mx) + (pos_y p - my) * (pos_y p - my))" for mx my
    using that by (simp add: repel_def repelRadius_def)
  have absent: "repel m p = Some p" if "mouse_x m = None \<or> mouse_y m = None"
    using that by (auto simp: repel_def split: option.splits)
  show ?thesis
    unfolding Let_def using near far absent by simp
qed

theorem repel_step_witness:
  "mousemove 0 0 \<lparr>mouse_x = None, mouse_y = None\<rparr> = \<lparr>mouse_x = Some 0, mouse_y = Some 0\<rparr> \<and>
   sqrt ((3 - 0) * (3 - 0) + (4 - 0) * (4 - 0)) < 100 \<and>
   repel (mousemove 0 0 \<lparr>mouse_x = None, mouse_y = None\<rparr>)
     \<lparr>pos_x = 3, pos_y = 4, radius = 2, velocity = \<lparr>x_of = 0.1, y_of = 0.2\<rparr>, hue = 0\<rparr>
   = Some \<lparr>pos_x = 3, pos_y = 4, radius = 2, velocity = \<lparr>x_of = 1.24, y_of = 1.72\<rparr>, hue = 0\<rparr> \<and>
   100 \<le> sqrt ((300 - 0) * (300 - 0) + (400 - 0) * (400 - 0)) \<and>
   repel (mousemove 0 0 \<lparr>mouse_x = None, mouse_y = None\<rparr>)
     \<lparr>pos_x = 300, pos_y = 400, radius = 2, velocity = \<lparr>x_of = 0.1, y_of = 0.2\<rparr>, hue = 0\<rparr>
   = Some \<lparr>pos_x = 300, pos_y = 400, radius = 2, velocity = \<lparr>x_of = 0.1, y_of = 0.2\<rparr>, hue = 0\<rparr> \<and>
   mouse_x (mouseout \<lparr>mouse_x = Some 0, mouse_y = Some 0\<rparr>) = None \<and>
   repel (mouseout \<lparr>mouse_x = Some 0, mouse_y = Some 0\<rparr>)
     \<lparr>pos_x = 3, pos_y = 4, radius = 2, velocity = \<lparr>x_of = 0.1, y_of = 0.2\<rparr>, hue = 0\<rparr>
   = Some \<lparr>pos_x = 3, pos_y = 4, radius = 2, velocity = \<lparr>x_of = 0.1, y_of = 0.2\<rparr>, hue = 0\<rparr>"
proof -
  have s5: "sqrt 25 = 5"
    by (rule real_sqrt_unique) simp_all
  have s500: "sqrt 250000 = 500"
    by (rule real_sqrt_unique) simp_all
  have a: "cos (atan2 4 3) = 3 / 5" "sin (atan2 4 3) = 4 / 5"
    using cos_sin_atan2 [of 3 4] by (simp_all add: s5)
  have m: "mousemove 0 0 \<lparr>mouse_x = None, mouse_y = None\<rparr> = \<lparr>mouse_x = Some 0, mouse_y = Some 0\<rparr>"
    "mouseout \<lparr>mouse_x = Some 0, mouse_y = Some 0\<rparr> = \<lparr>mouse_x = None, mouse_y = None\<rparr>"
    by (simp_all add: mousemove_def mouseout_def)
  have near: "sqrt ((3 - 0) * (3 - 0) + (4 - 0) * (4 - 0)) < 100 \<and>
     repel \<lparr>mouse_x = Some 0, mouse_y = Some 0\<rparr>
       \<lparr>pos_x = 3, pos_y = 4, radius = 2, velocity = \<lparr>x_of = 0.1, y_of = 0.2\<rparr>, hue = 0\<rparr>
     = Some \<lparr>pos_x = 3, pos_y = 4, radius = 2, velocity = \<lparr>x_of = 1.24, y_of = 1.72\<rparr>, hue = 0\<rparr>"
    using repel_step [of "\<lparr>mouse_x = Some 0, mouse_y = Some 0\<rparr>"
        "\<lparr>pos_x = 3, pos_y = 4, radius = 2, velocity = \<lparr>x_of = 0.1, y_of = 0.2\<rparr>, hue = 0\<rparr>"]
    unfolding Let_def
    by (simp add: s5 a)
  have far: "100 \<le> sqrt ((300 - 0) * (300 - 0) + (400 - 0) * (400 - 0)) \<and>
     repel \<lparr>mouse_x = Some 0, mouse_y = Some 0\<rparr>
       \<lparr>pos_x = 300, pos_y = 400, radius = 2, velocity = \<lparr>x_of = 0.1, y_of = 0.2\<rparr>, hue = 0\<rparr>
     = Some \<lparr>pos_x = 300, pos_y = 400, radius = 2, velocity = \<lparr>x_of = 0.1, y_of = 0.2\<rparr>, hue = 0\<rparr>"
    using repel_step [of "\<lparr>mouse_x = Some 0, mouse_y = Some 0\<rparr>"
        "\<lparr>pos_x = 300, pos_y = 400, radius = 2, velocity = \<lparr>x_of = 0.1, y_of = 0.2\<rparr>, hue = 0\<rparr>"]
    unfolding Let_def
    by (simp add: s500)
  have absent: "repel \<lparr>mouse_x = None, mouse_y = None\<rparr>
       \<lparr>pos_x = 3, pos_y = 4, radius = 2, velocity = \<lparr>x_of = 0.1, y_of = 0.2\<rparr>, hue = 0\<rparr>
     = Some \<lparr>pos_x = 3, pos_y = 4, radius = 2, velocity = \<lparr>x_of = 0.1, y_of = 0.2\<rparr>, hue = 0\<rparr>"
    using repel_step [of "\<lparr>mouse_x = None, mouse_y = None\<rparr>"
        "\<lparr>pos_x = 3, pos_y = 4, radius = 2, velocity = \<lparr>x_of = 0.1, y_of = 0.2\<rparr>, hue = 0\<rparr>"]
    by simp
  show ?thesis
    unfolding m using near far absent by simp
qed

section \<open>The bounce\<close>

text \<open>
  C4, as amended. On each axis independently, for the position after integration: if
  \<open>position - radius < 0\<close>, the position becomes \<open>radius\<close> and the velocity component
  \<open>-0.5\<close> times what it was; otherwise, if \<open>position + radius > dimension\<close>, the position
  becomes \<open>dimension - radius\<close> and the velocity component \<open>-0.5\<close> times what it was;
  otherwise both stay. The radius stays.
\<close>

theorem bounce_step:
  "radius (bounce width height p) = radius p \<and>
   (pos_x p - radius p < 0 \<longrightarrow>
      pos_x (bounce width height p) = radius p \<and>
      x_of (velocity (bounce width height p)) = - 0.5 * x_of (velocity p)) \<and>
   (\<not> pos_x p - radius p < 0 \<and> pos_x p + radius p > width \<longrightarrow>
      pos_x (bounce width height p) = width - radius p \<and>
      x_of (velocity (bounce width height p)) = - 0.5 * x_of (velocity p)) \<and>
   (\<not> pos_x p - radius p < 0 \<and> \<not> pos_x p + radius p > width \<longrightarrow>
      pos_x (bounce width height p) = pos_x p \<and>
      x_of (velocity (bounce width height p)) = x_of (velocity p)) \<and>
   (pos_y p - radius p < 0 \<longrightarrow>
      pos_y (bounce width height p) = radius p \<and>
      y_of (velocity (bounce width height p)) = - 0.5 * y_of (velocity p)) \<and>
   (\<not> pos_y p - radius p < 0 \<and> pos_y p + radius p > height \<longrightarrow>
      pos_y (bounce width height p) = height - radius p \<and>
      y_of (velocity (bounce width height p)) = - 0.5 * y_of (velocity p)) \<and>
   (\<not> pos_y p - radius p < 0 \<and> \<not> pos_y p + radius p > height \<longrightarrow>
      pos_y (bounce width height p) = pos_y p \<and>
      y_of (velocity (bounce width height p)) = y_of (velocity p))"
  by (simp add: bounce_def bounce_x_def bounce_y_def)

theorem bounce_step_witness:
  "(- 1 - 2 < (0::real)) \<and>
   bounce 1024 768 \<lparr>pos_x = - 1, pos_y = 300, radius = 2, velocity = \<lparr>x_of = - 1.2, y_of = 0.4\<rparr>, hue = 0\<rparr>
   = \<lparr>pos_x = 2, pos_y = 300, radius = 2, velocity = \<lparr>x_of = 0.6, y_of = 0.4\<rparr>, hue = 0\<rparr> \<and>
   \<not> (1023 - 2 < (0::real)) \<and> 1023 + 2 > (1024::real) \<and> 767 + 2 > (768::real) \<and>
   bounce 1024 768 \<lparr>pos_x = 1023, pos_y = 767, radius = 2, velocity = \<lparr>x_of = 1.2, y_of = 0.4\<rparr>, hue = 0\<rparr>
   = \<lparr>pos_x = 1022, pos_y = 766, radius = 2, velocity = \<lparr>x_of = - 0.6, y_of = - 0.2\<rparr>, hue = 0\<rparr> \<and>
   bounce 1024 768 \<lparr>pos_x = 500, pos_y = 1, radius = 2, velocity = \<lparr>x_of = 1.2, y_of = - 0.4\<rparr>, hue = 0\<rparr>
   = \<lparr>pos_x = 500, pos_y = 2, radius = 2, velocity = \<lparr>x_of = 1.2, y_of = 0.2\<rparr>, hue = 0\<rparr> \<and>
   bounce 1024 768 \<lparr>pos_x = 500, pos_y = 300, radius = 2, velocity = \<lparr>x_of = 1.2, y_of = - 0.4\<rparr>, hue = 0\<rparr>
   = \<lparr>pos_x = 500, pos_y = 300, radius = 2, velocity = \<lparr>x_of = 1.2, y_of = - 0.4\<rparr>, hue = 0\<rparr>"
  using bounce_step [of 1024 768
      "\<lparr>pos_x = - 1, pos_y = 300, radius = 2, velocity = \<lparr>x_of = - 1.2, y_of = 0.4\<rparr>, hue = 0\<rparr>"]
    bounce_step [of 1024 768
      "\<lparr>pos_x = 1023, pos_y = 767, radius = 2, velocity = \<lparr>x_of = 1.2, y_of = 0.4\<rparr>, hue = 0\<rparr>"]
    bounce_step [of 1024 768
      "\<lparr>pos_x = 500, pos_y = 1, radius = 2, velocity = \<lparr>x_of = 1.2, y_of = - 0.4\<rparr>, hue = 0\<rparr>"]
    bounce_step [of 1024 768
      "\<lparr>pos_x = 500, pos_y = 300, radius = 2, velocity = \<lparr>x_of = 1.2, y_of = - 0.4\<rparr>, hue = 0\<rparr>"]
  by (simp add: bounce_def bounce_x_def bounce_y_def)

text \<open>
  C4 as stated fails where both tests hold: the far-edge test is the \<^verbatim>\<open>else\<close> branch of
  the near-edge test. On a canvas 3 wide, a particle of radius 2 at \<open>x = 1.5\<close> has
  \<open>x + radius > 3\<close>, and the bounce puts it at \<open>radius = 2\<close>, not at \<open>3 - radius = 1\<close>.
\<close>

theorem far_edge_counterexample:
  "pos_x \<lparr>pos_x = 1.5, pos_y = 300, radius = 2, velocity = \<lparr>x_of = 0.4, y_of = 0.3\<rparr>, hue = 0\<rparr>
     + radius \<lparr>pos_x = 1.5, pos_y = 300, radius = 2, velocity = \<lparr>x_of = 0.4, y_of = 0.3\<rparr>, hue = 0\<rparr>
     > 3 \<and>
   bounce 3 600 \<lparr>pos_x = 1.5, pos_y = 300, radius = 2, velocity = \<lparr>x_of = 0.4, y_of = 0.3\<rparr>, hue = 0\<rparr>
     = \<lparr>pos_x = 2, pos_y = 300, radius = 2, velocity = \<lparr>x_of = - 0.2, y_of = 0.3\<rparr>, hue = 0\<rparr> \<and>
   pos_x (bounce 3 600
       \<lparr>pos_x = 1.5, pos_y = 300, radius = 2, velocity = \<lparr>x_of = 0.4, y_of = 0.3\<rparr>, hue = 0\<rparr>)
     \<noteq> 3 - radius \<lparr>pos_x = 1.5, pos_y = 300, radius = 2, velocity = \<lparr>x_of = 0.4, y_of = 0.3\<rparr>, hue = 0\<rparr>"
  by (simp add: bounce_def bounce_x_def bounce_y_def)

section \<open>Divisions\<close>

text \<open>A frame of \<^verbatim>\<open>animate\<close> returns, with as many particles and circles as before.\<close>

lemma update_in_total:
  "\<exists>p' c g'. update_in st p = Some (p', c, st\<lparr>rand := g'\<rparr>)"
proof -
  obtain p3 where "capped (mouse st) p = Some p3"
    using capped_frame by blast
  then have "update_in st p =
      Some (bounce (canvas_width st) (canvas_height st) (integrate (fst (jitter p3 (rand st)))),
            draw (isDark st)
              (bounce (canvas_width st) (canvas_height st) (integrate (fst (jitter p3 (rand st))))),
            st\<lparr>rand := snd (jitter p3 (rand st))\<rparr>)"
    by (simp add: update_in_def update_def split_beta Let_def)
  then show ?thesis by blast
qed

lemma forEach_update_total:
  "\<exists>ps' cs g'. forEach_update st ps = Some (ps', cs, st\<lparr>rand := g'\<rparr>) \<and>
     length ps' = length ps \<and> length cs = length ps"
proof (induction ps arbitrary: st)
  case Nil
  have "st = st\<lparr>rand := rand st\<rparr>" by simp
  then show ?case by (metis forEach_update.simps(1) list.size(3))
next
  case (Cons p ps)
  obtain p' c g1 where u: "update_in st p = Some (p', c, st\<lparr>rand := g1\<rparr>)"
    using update_in_total by blast
  obtain ps' cs g2 where r: "forEach_update (st\<lparr>rand := g1\<rparr>) ps = Some (ps', cs, st\<lparr>rand := g1\<rparr>\<lparr>rand := g2\<rparr>)"
    "length ps' = length ps" "length cs = length ps"
    using Cons.IH by blast
  have "forEach_update st (p # ps) = Some (p' # ps', c # cs, st\<lparr>rand := g2\<rparr>)"
    using u r(1) by simp
  then show ?case using r(2,3) by auto
qed

lemma animate_total:
  "\<exists>st' cs. animate st = Some (st', cs) \<and> length (particles st') = length (particles st) \<and>
     length cs = length (particles st)"
proof -
  obtain ps' cs g' where "forEach_update st (particles st) = Some (ps', cs, st\<lparr>rand := g'\<rparr>)"
    "length ps' = length (particles st)" "length cs = length (particles st)"
    using forEach_update_total by blast
  then show ?thesis by (simp add: animate_def)
qed

text \<open>
  C8. No division of \<^verbatim>\<open>update()\<close> has a zero divisor: \<open>repelRadius\<close> is the constant 100,
  and the speed cap divides by \<open>speed\<close> only when \<open>speed > maxSpeed\<close>, so the repulsion step,
  the speed cap, the whole update and a whole frame of \<^verbatim>\<open>animate\<close> return a result. With
  the pointer exactly on the particle, \<open>atan2 0 0 = 0\<close> and the repulsion adds 2 to \<open>velocity.x\<close> and 0 to \<open>velocity.y\<close>.
\<close>

theorem divisions_defined:
  "repelRadius \<noteq> 0 \<and>
   repel m p \<noteq> None \<and>
   speed_cap p \<noteq> None \<and>
   (speed_of (velocity p) > maxSpeed \<longrightarrow>
      speed_of (velocity p) \<noteq> 0 \<and>
      js_div (x_of (velocity p)) (speed_of (velocity p)) \<noteq> None \<and>
      js_div (y_of (velocity p)) (speed_of (velocity p)) \<noteq> None) \<and>
   (\<not> speed_of (velocity p) > maxSpeed \<longrightarrow> speed_cap p = Some p) \<and>
   (\<exists>r. update m width height dark p g = Some r) \<and>
   (mouse_x m = Some (pos_x p) \<and> mouse_y m = Some (pos_y p) \<longrightarrow>
      atan2 (pos_y p - pos_y p) (pos_x p - pos_x p) = 0 \<and>
      repel m p = Some (p\<lparr>velocity :=
        \<lparr>x_of = x_of (velocity p) + 2, y_of = y_of (velocity p) + 0\<rparr>\<rparr>)) \<and>
   (\<exists>r. animate st = Some r)"
proof -
  have r: "repel m p \<noteq> None"
    using repel_frame [of m p] by auto
  have s: "speed_cap p \<noteq> None"
    using speed_cap_frame [of p] by auto
  have d: "speed_of (velocity p) \<noteq> 0 \<and>
      js_div (x_of (velocity p)) (speed_of (velocity p)) \<noteq> None \<and>
      js_div (y_of (velocity p)) (speed_of (velocity p)) \<noteq> None"
    if "speed_of (velocity p) > maxSpeed"
    using that by (simp add: js_div_def maxSpeed_def)
  have n: "speed_cap p = Some p" if "\<not> speed_of (velocity p) > maxSpeed"
    using that by (simp add: speed_cap_def)
  obtain p3 where "capped m p = Some p3"
    using capped_frame by blast
  then have u: "\<exists>r. update m width height dark p g = Some r"
    by (simp add: update_def split_beta Let_def)
  have z: "repel m p = Some (p\<lparr>velocity :=
        \<lparr>x_of = x_of (velocity p) + 2, y_of = y_of (velocity p) + 0\<rparr>\<rparr>)"
    if "mouse_x m = Some (pos_x p)" "mouse_y m = Some (pos_y p)"
    using that by (simp add: repel_def js_div_def repelRadius_def maxForce_def atan2_def)
  have a: "\<exists>r. animate st = Some r"
    using animate_total [of st] by auto
  show ?thesis
    using r s d n u z a by (simp add: repelRadius_def atan2_def)
qed

theorem divisions_defined_witness:
  "speed_of (velocity \<lparr>pos_x = 300, pos_y = 300, radius = 2,
                        velocity = \<lparr>x_of = 3, y_of = 4\<rparr>, hue = 0\<rparr>) > maxSpeed \<and>
   js_div 3 5 = Some (3 / 5) \<and> js_div 4 5 = Some (4 / 5) \<and>
   \<not> speed_of (velocity \<lparr>pos_x = 300, pos_y = 300, radius = 2,
                        velocity = \<lparr>x_of = 0.3, y_of = 0.4\<rparr>, hue = 0\<rparr>) > maxSpeed \<and>
   speed_cap \<lparr>pos_x = 300, pos_y = 300, radius = 2, velocity = \<lparr>x_of = 0.3, y_of = 0.4\<rparr>, hue = 0\<rparr>
   = Some \<lparr>pos_x = 300, pos_y = 300, radius = 2, velocity = \<lparr>x_of = 0.3, y_of = 0.4\<rparr>, hue = 0\<rparr> \<and>
   repel \<lparr>mouse_x = Some 300, mouse_y = Some 300\<rparr>
     \<lparr>pos_x = 300, pos_y = 300, radius = 2, velocity = \<lparr>x_of = 3, y_of = 4\<rparr>, hue = 0\<rparr>
   = Some \<lparr>pos_x = 300, pos_y = 300, radius = 2, velocity = \<lparr>x_of = 5, y_of = 4\<rparr>, hue = 0\<rparr>"
proof -
  have s5: "speed_of \<lparr>x_of = 3, y_of = 4\<rparr> = 5"
    unfolding speed_of_def by (rule real_sqrt_unique) simp_all
  have s05: "speed_of \<lparr>x_of = 3 / 10, y_of = 2 / 5\<rparr> = 1 / 2"
    unfolding speed_of_def by (rule real_sqrt_unique) (simp_all add: power2_eq_square)
  have fast: "speed_of (velocity \<lparr>pos_x = 300, pos_y = 300, radius = 2,
                        velocity = \<lparr>x_of = 3, y_of = 4\<rparr>, hue = 0\<rparr>) > maxSpeed \<and>
     js_div 3 5 = Some (3 / 5) \<and> js_div 4 5 = Some (4 / 5) \<and>
     repel \<lparr>mouse_x = Some 300, mouse_y = Some 300\<rparr>
       \<lparr>pos_x = 300, pos_y = 300, radius = 2, velocity = \<lparr>x_of = 3, y_of = 4\<rparr>, hue = 0\<rparr>
     = Some \<lparr>pos_x = 300, pos_y = 300, radius = 2, velocity = \<lparr>x_of = 5, y_of = 4\<rparr>, hue = 0\<rparr>"
    using divisions_defined [of "\<lparr>mouse_x = Some 300, mouse_y = Some 300\<rparr>"
      "\<lparr>pos_x = 300, pos_y = 300, radius = 2, velocity = \<lparr>x_of = 3, y_of = 4\<rparr>, hue = 0\<rparr>"
      1024 768 False "sconst 0"]
    by (simp add: s5 maxSpeed_def js_div_def)
  have slow: "\<not> speed_of (velocity \<lparr>pos_x = 300, pos_y = 300, radius = 2,
                        velocity = \<lparr>x_of = 0.3, y_of = 0.4\<rparr>, hue = 0\<rparr>) > maxSpeed \<and>
     speed_cap \<lparr>pos_x = 300, pos_y = 300, radius = 2, velocity = \<lparr>x_of = 0.3, y_of = 0.4\<rparr>, hue = 0\<rparr>
     = Some \<lparr>pos_x = 300, pos_y = 300, radius = 2, velocity = \<lparr>x_of = 0.3, y_of = 0.4\<rparr>, hue = 0\<rparr>"
    using divisions_defined [of "\<lparr>mouse_x = None, mouse_y = None\<rparr>"
      "\<lparr>pos_x = 300, pos_y = 300, radius = 2, velocity = \<lparr>x_of = 0.3, y_of = 0.4\<rparr>, hue = 0\<rparr>"
      1024 768 False "sconst 0"]
    by (simp add: s05 maxSpeed_def)
  show ?thesis using fast slow by blast
qed

section \<open>What the update reads\<close>

text \<open>
  C10. Take two pages with the same pointer, canvas size and dark-mode class; the window
  size, the other particles, the pending timeout, the recorded calls and the random source
  may differ. If the velocity after the friction and speed-cap steps has \<open>|vx| \<ge> 0.05\<close> and
  \<open>|vy| \<ge> 0.05\<close>, updating the same particle in both gives the same particle and paints the
  same circle, and neither page changes: no random number is read.
\<close>

theorem update_deterministic:
  assumes "mouse st1 = mouse st2"
    and "canvas_width st1 = canvas_width st2"
    and "canvas_height st1 = canvas_height st2"
    and "isDark st1 = isDark st2"
    and "capped (mouse st1) p = Some p3"
    and "0.05 \<le> \<bar>x_of (velocity p3)\<bar>"
    and "0.05 \<le> \<bar>y_of (velocity p3)\<bar>"
  shows "\<exists>q c. update_in st1 p = Some (q, c, st1) \<and> update_in st2 p = Some (q, c, st2)"
proof -
  have j: "jitter p3 g = (p3, g)" for g
    using assms(6,7) by (simp add: jitter_def jitter_x_def jitter_y_def)
  have u: "update (mouse st1) (canvas_width st1) (canvas_height st1) (isDark st1) p g =
        Some (bounce (canvas_width st1) (canvas_height st1) (integrate p3), g,
              draw (isDark st1) (bounce (canvas_width st1) (canvas_height st1) (integrate p3)))" for g
    using assms(5) by (simp add: update_def j Let_def)
  have "update_in st1 p = Some (bounce (canvas_width st1) (canvas_height st1) (integrate p3),
          draw (isDark st1) (bounce (canvas_width st1) (canvas_height st1) (integrate p3)), st1)"
    by (simp add: update_in_def u)
  moreover have "update_in st2 p = Some (bounce (canvas_width st1) (canvas_height st1) (integrate p3),
          draw (isDark st1) (bounce (canvas_width st1) (canvas_height st1) (integrate p3)), st2)"
    using u assms(1-4) by (simp add: update_in_def)
  ultimately show ?thesis by blast
qed


theorem update_deterministic_witness:
  "mouse (sample_page 1024 (sconst 0)) =
     mouse ((sample_page 500 (sconst 0.9))\<lparr>particles := [sample_particle], resizeTimer := Some 250\<rparr>) \<and>
   canvas_width (sample_page 1024 (sconst 0)) =
     canvas_width ((sample_page 500 (sconst 0.9))\<lparr>particles := [sample_particle], resizeTimer := Some 250\<rparr>) \<and>
   canvas_height (sample_page 1024 (sconst 0)) =
     canvas_height ((sample_page 500 (sconst 0.9))\<lparr>particles := [sample_particle], resizeTimer := Some 250\<rparr>) \<and>
   isDark (sample_page 1024 (sconst 0)) =
     isDark ((sample_page 500 (sconst 0.9))\<lparr>particles := [sample_particle], resizeTimer := Some 250\<rparr>) \<and>
   capped (mouse (sample_page 1024 (sconst 0))) sample_particle =
     Some \<lparr>pos_x = 300, pos_y = 300, radius = 2,
           velocity = \<lparr>x_of = 0.291, y_of = 0.388\<rparr>, hue = 0.5\<rparr> \<and>
   (0.05::real) \<le> \<bar>0.291\<bar> \<and> (0.05::real) \<le> \<bar>0.388\<bar> \<and>
   (\<exists>q c. update_in (sample_page 1024 (sconst 0)) sample_particle
              = Some (q, c, sample_page 1024 (sconst 0)) \<and>
          update_in ((sample_page 500 (sconst 0.9))\<lparr>particles := [sample_particle], resizeTimer := Some 250\<rparr>)
              sample_particle
              = Some (q, c, (sample_page 500 (sconst 0.9))\<lparr>particles := [sample_particle], resizeTimer := Some 250\<rparr>))"
proof -
  have c: "capped (mouse (sample_page 1024 (sconst 0))) sample_particle =
     Some \<lparr>pos_x = 300, pos_y = 300, radius = 2,
           velocity = \<lparr>x_of = 0.291, y_of = 0.388\<rparr>, hue = 0.5\<rparr>"
    using capped_example by (simp add: sample_page_def sample_particle_def)
  have e: "mouse (sample_page 1024 (sconst 0)) =
     mouse ((sample_page 500 (sconst 0.9))\<lparr>particles := [sample_particle], resizeTimer := Some 250\<rparr>)"
    "canvas_width (sample_page 1024 (sconst 0)) =
     canvas_width ((sample_page 500 (sconst 0.9))\<lparr>particles := [sample_particle], resizeTimer := Some 250\<rparr>)"
    "canvas_height (sample_page 1024 (sconst 0)) =
     canvas_height ((sample_page 500 (sconst 0.9))\<lparr>particles := [sample_particle], resizeTimer := Some 250\<rparr>)"
    "isDark (sample_page 1024 (sconst 0)) =
     isDark ((sample_page 500 (sconst 0.9))\<lparr>particles := [sample_particle], resizeTimer := Some 250\<rparr>)"
    by (simp_all add: sample_page_def)
  have v: "0.05 \<le> \<bar>x_of (velocity \<lparr>pos_x = 300, pos_y = 300, radius = 2,
           velocity = \<lparr>x_of = 0.291, y_of = 0.388\<rparr>, hue = 0.5\<rparr>)\<bar>"
     "0.05 \<le> \<bar>y_of (velocity \<lparr>pos_x = 300, pos_y = 300, radius = 2,
           velocity = \<lparr>x_of = 0.291, y_of = 0.388\<rparr>, hue = 0.5\<rparr>)\<bar>"
    by simp_all
  have "\<exists>q c. update_in (sample_page 1024 (sconst 0)) sample_particle
              = Some (q, c, sample_page 1024 (sconst 0)) \<and>
          update_in ((sample_page 500 (sconst 0.9))\<lparr>particles := [sample_particle], resizeTimer := Some 250\<rparr>)
              sample_particle
              = Some (q, c, (sample_page 500 (sconst 0.9))\<lparr>particles := [sample_particle], resizeTimer := Some 250\<rparr>)"
    by (rule update_deterministic [OF e c v])
  then show ?thesis using c e by simp
qed

section \<open>Creating the particles\<close>

lemma init_loop_length:
  "length (fst (init_loop n width height ps g)) = length ps + n"
  by (induction n arbitrary: ps g) (simp_all add: split_beta)

lemma init_loop_set:
  "set (fst (init_loop n width height ps g))
   \<subseteq> set ps \<union> range (\<lambda>g'. fst (new_particle width height g'))"
proof (induction n arbitrary: ps g)
  case 0
  then show ?case by simp
next
  case (Suc n)
  have "set (fst (init_loop n width height (ps @ [fst (new_particle width height g)])
                 (snd (new_particle width height g))))
        \<subseteq> set (ps @ [fst (new_particle width height g)])
            \<union> range (\<lambda>g'. fst (new_particle width height g'))"
    by (rule Suc.IH)
  then show ?case by (auto simp: split_beta)
qed

text \<open>
  C9. After \<^verbatim>\<open>initParticles\<close> the collection has 40 particles when the window's inner
  width is less than 768 and 80 otherwise; the result does not depend on the particles that
  were there, and every particle in it was made by the loop body from the canvas size and
  random numbers.
\<close>

theorem initParticles_count:
  "length (particles (initParticles st)) = (if innerWidth st < 768 then 40 else 80) \<and>
   initParticles (st\<lparr>particles := old\<rparr>) = initParticles st \<and>
   set (particles (initParticles st))
     \<subseteq> range (\<lambda>g. fst (new_particle (canvas_width st) (canvas_height st) g))"
proof -
  have "length (particles (initParticles st)) = (if innerWidth st < 768 then 40 else 80)"
    by (simp add: initParticles_def split_beta init_loop_length particleCount_def)
  moreover have "initParticles (st\<lparr>particles := old\<rparr>) = initParticles st"
    by (simp add: initParticles_def)
  moreover have "set (particles (initParticles st))
     \<subseteq> range (\<lambda>g. fst (new_particle (canvas_width st) (canvas_height st) g))"
    using init_loop_set [of "particleCount (innerWidth st)" "canvas_width st" "canvas_height st" "[]" "rand st"]
    by (simp add: initParticles_def split_beta)
  ultimately show ?thesis by blast
qed

theorem initParticles_count_witness:
  "length (particles (initParticles (sample_page 500 (sconst 0.5)))) = 40 \<and>
   length (particles (initParticles (sample_page 1024 (sconst 0.5)))) = 80 \<and>
   length (particles (initParticles (sample_page 767 (sconst 0.5)))) = 40 \<and>
   length (particles (initParticles (sample_page 768 (sconst 0.5)))) = 80 \<and>
   initParticles ((sample_page 500 (sconst 0.5))\<lparr>particles := [sample_particle]\<rparr>)
     = initParticles (sample_page 500 (sconst 0.5))"
  using initParticles_count [of "sample_page 500 (sconst 0.5)" "[sample_particle]"]
    initParticles_count [of "sample_page 1024 (sconst 0.5)"]
    initParticles_count [of "sample_page 767 (sconst 0.5)"]
    initParticles_count [of "sample_page 768 (sconst 0.5)"]
  by (simp add: sample_page_def)

section \<open>The hue\<close>




















section \<open>The cursor follower's frames\<close>

text \<open>The increment of a frame: between nothing and the whole distance.\<close>

lemma increment_bounds:
  assumes "is_double c" "is_double t" "c \<le> t"
  shows "0 \<le> fl (fl (t - c) * fl (1 / 10)) \<and> fl (fl (t - c) * fl (1 / 10)) \<le> t - c"
proof -
  define d where "d = t - c"
  define D where "D = fl d"
  define s :: real where "s = fl (1 / 10)"
  define I where "I = fl (D * s)"
  have s: "0 \<le> s" "s \<le> 3 / 20" unfolding s_def fl_tenth by simp_all
  have d0: "0 \<le> d" using assms(3) by (simp add: d_def)
  have D0: "0 \<le> D" unfolding D_def using d0 by (rule fl_nonneg)
  have I0: "0 \<le> I" unfolding I_def using D0 s(1) by (intro fl_nonneg) simp
  have "I \<le> d"
  proof (cases "c = t")
    case True
    then show ?thesis by (simp add: I_def D_def d_def fl_zero)
  next
    case False
    then have m: "2 powr (- 1074) \<le> d"
      unfolding d_def using assms by (intro double_diff_ge) simp_all
    have "\<bar>D - d\<bar> \<le> max \<bar>d\<bar> (2 powr (- 1074)) / 2" unfolding D_def by (rule fl_half_more)
    moreover have "max \<bar>d\<bar> (2 powr (- 1074)) = d" using m d0 by (simp add: max_def)
    ultimately have D: "D \<le> 3 / 2 * d" by linarith
    have "D * s \<le> (3 / 2 * d) * (3 / 20)"
      using D s D0 d0 by (intro mult_mono) simp_all
    then have P: "D * s \<le> 9 / 40 * d" by simp
    have P0: "0 \<le> D * s" using D0 s by simp
    have "\<bar>I - D * s\<bar> \<le> max \<bar>D * s\<bar> (2 powr (- 1074)) / 2" unfolding I_def by (rule fl_half_more)
    moreover have "max \<bar>D * s\<bar> (2 powr (- 1074)) \<le> d"
      using P P0 m d0 by (simp add: max_def)
    ultimately have "I \<le> D * s + d / 2" by linarith
    then show ?thesis using P d0 by linarith
  qed
  then show ?thesis using I0 unfolding I_def D_def d_def s_def by simp
qed

lemma lerp_minus: "lerp (- c) (- t) s = - lerp c t s"
proof -
  have "- t - - c = - (t - c)" by simp
  then have "fl (- t - - c) = - fl (t - c)" by (simp only: fl_minus)
  then have "fl (fl (- t - - c) * s) = - fl (fl (t - c) * s)"
    by (simp add: fl_minus)
  then have "- c + fl (fl (- t - - c) * s) = - (c + fl (fl (t - c) * s))" by simp
  then show ?thesis unfolding lerp_def by (simp only: fl_minus)
qed

lemma lerp_up:
  assumes "is_double c" "is_double t" "c \<le> t"
  shows "c \<le> lerp c t (fl (1 / 10)) \<and> lerp c t (fl (1 / 10)) \<le> t"
proof -
  define I where "I = fl (fl (t - c) * fl (1 / 10))"
  have I: "0 \<le> I" "I \<le> t - c" using increment_bounds [OF assms] by (simp_all add: I_def)
  have "c \<le> fl (c + I)" using I(1) assms(1) by (intro fl_ge_double) simp_all
  moreover have "fl (c + I) \<le> t" using I(2) assms(2) by (intro fl_le_double) simp_all
  ultimately show ?thesis by (simp add: lerp_def I_def)
qed

lemma lerp_down:
  assumes "is_double c" "is_double t" "t \<le> c"
  shows "t \<le> lerp c t (fl (1 / 10)) \<and> lerp c t (fl (1 / 10)) \<le> c"
proof -
  have "- c \<le> lerp (- c) (- t) (fl (1 / 10)) \<and> lerp (- c) (- t) (fl (1 / 10)) \<le> - t"
    using assms by (intro lerp_up) (simp_all add: is_double_minus)
  then show ?thesis by (simp add: lerp_minus)
qed






lemma lerp_between:
  assumes "is_double c" "is_double t"
  shows "min c t \<le> lerp c t (fl (1 / 10)) \<and> lerp c t (fl (1 / 10)) \<le> max c t"
proof (cases "c \<le> t")
  case True
  then show ?thesis using lerp_up [OF assms True] by simp
next
  case False
  then have tc: "t \<le> c" by simp
  show ?thesis using lerp_down [OF assms tc] by simp
qed
















section \<open>The resize debounce\<close>

lemma timeout_fires_fields:
  "calls (timeout_fires d st) = calls st @ [(d, ResizeCanvas), (d, InitParticles)] \<and>
   timers (timeout_fires d st) = timers st \<and>
   resizeTimer (timeout_fires d st) = resizeTimer st \<and>
   innerWidth (timeout_fires d st) = innerWidth st \<and>
   innerHeight (timeout_fires d st) = innerHeight st \<and>
   canvas_width (timeout_fires d st) = innerWidth st \<and>
   canvas_height (timeout_fires d st) = innerHeight st \<and>
   particles (timeout_fires d st) =
     fst (init_loop (particleCount (innerWidth st)) (innerWidth st) (innerHeight st) [] (rand st))"
  by (simp add: timeout_fires_def record_call_def initParticles_def resizeCanvas_def split_beta Let_def)

lemma on_resize_fields:
  assumes "timers st = [] \<or> (\<exists>i d. timers st = [(i, d)] \<and> resizeTimer st = Some i)"
  shows "calls (on_resize t w h st) = calls st @ [(t, ResizeCanvas)] \<and>
         timers (on_resize t w h st) = [(next_timer st, t + 250)] \<and>
         resizeTimer (on_resize t w h st) = Some (next_timer st) \<and>
         particles (on_resize t w h st) = particles st \<and>
         rand (on_resize t w h st) = rand st \<and>
         innerWidth (on_resize t w h st) = w \<and> innerHeight (on_resize t w h st) = h \<and>
         canvas_width (on_resize t w h st) = w \<and> canvas_height (on_resize t w h st) = h"
  using assms
  by (auto simp add: on_resize_def setTimeout_def clearTimeout_def record_call_def
      resizeCanvas_def Let_def split: option.splits)

lemma advance_not_due:
  assumes "one_pending st (e # es)"
  shows "advance (fst e) st = st"
  using assms by (auto simp add: one_pending_def advance_def)

lemma burst_tail: "burst (t # ts) \<Longrightarrow> burst ts"
  by (cases ts) simp_all

lemma burst_take: "burst ts \<Longrightarrow> burst (take n ts)"
proof (induction ts arbitrary: n rule: burst.induct)
  case 1
  then show ?case by simp
next
  case (2 t)
  then show ?case by (cases n) simp_all
next
  case (3 t u ts)
  show ?case
  proof (cases n)
    case 0
    then show ?thesis by simp
  next
    case (Suc m)
    have "burst (take m (u # ts))" using 3 by simp
    then show ?thesis using 3(2) Suc by (cases m) simp_all
  qed
qed

text \<open>
  During a burst no timeout runs: each event finds the pending timeout not yet due, runs
  \<^verbatim>\<open>resizeCanvas\<close> at once, clears the pending timeout and sets a new one.
\<close>

lemma run_burst:
  "es \<noteq> [] \<Longrightarrow> burst (map fst es) \<Longrightarrow> one_pending st es \<Longrightarrow>
   calls (run es st) = calls st @ map (\<lambda>e. (fst e, ResizeCanvas)) es \<and>
   particles (run es st) = particles st \<and> rand (run es st) = rand st \<and>
   innerWidth (run es st) = fst (snd (last es)) \<and>
   innerHeight (run es st) = snd (snd (last es)) \<and>
   canvas_width (run es st) = fst (snd (last es)) \<and>
   canvas_height (run es st) = snd (snd (last es)) \<and>
   (\<exists>i. timers (run es st) = [(i, fst (last es) + 250)] \<and> resizeTimer (run es st) = Some i)"
proof (induction es arbitrary: st)
  case Nil
  then show ?case by simp
next
  case (Cons e es)
  obtain t w h where e: "e = (t, w, h)" by (cases e) auto
  have a: "advance t st = st"
    using advance_not_due [OF Cons.prems(3)] by (simp add: e)
  define st1 where "st1 = on_resize t w h st"
  have p: "timers st = [] \<or> (\<exists>i d. timers st = [(i, d)] \<and> resizeTimer st = Some i)"
    using Cons.prems(3) by (auto simp add: one_pending_def)
  have f: "calls st1 = calls st @ [(t, ResizeCanvas)]"
    "timers st1 = [(next_timer st, t + 250)]" "resizeTimer st1 = Some (next_timer st)"
    "particles st1 = particles st" "rand st1 = rand st"
    "innerWidth st1 = w" "innerHeight st1 = h" "canvas_width st1 = w" "canvas_height st1 = h"
    using on_resize_fields [OF p, of t w h] by (simp_all add: st1_def)
  have r: "run (e # es) st = run es st1"
    by (simp add: e a st1_def)
  show ?case
  proof (cases es)
    case Nil
    then show ?thesis unfolding r using f by (simp add: e)
  next
    case (Cons e' es')
    have b: "burst (map fst es)"
      using Cons.prems(2) burst_tail by (simp add: e)
    have "fst e' < t + 250" using Cons.prems(2) by (simp add: e Cons)
    then have n: "one_pending st1 es"
      using f(2,3) by (simp add: one_pending_def Cons)
    have ne: "es \<noteq> []" by (simp add: Cons)
    show ?thesis
      using Cons.IH [OF ne b n] f unfolding r by (simp add: e Cons)
  qed
qed

lemma settle_one:
  assumes "timers st = [(i, d)]"
  shows "settle st = timeout_fires d (st\<lparr>timers := []\<rparr>)"
  using assms by (simp add: settle_def)

lemma count_calls_append:
  "count_calls c (st\<lparr>calls := xs @ ys\<rparr>) = length (filter (\<lambda>(t, c'). c' = c) xs) + length (filter (\<lambda>(t, c'). c' = c) ys)"
  by (simp add: count_calls_def)

lemma filter_resize_calls:
  "filter (\<lambda>(t, c'). c' = InitParticles) (map (\<lambda>e. (fst e, ResizeCanvas)) es) = []"
  "filter (\<lambda>(t, c'). c' = ResizeCanvas) (map (\<lambda>e. (fst e, ResizeCanvas)) es)
     = map (\<lambda>e. (fst e, ResizeCanvas)) es"
  by (induction es) simp_all

text \<open>
  C5, as amended. Take a burst of \<open>N\<close> resize events, each less than 250 ms after the one
  before, with no timeout pending at its start. During the burst every event resizes the
  canvas at once to the window's new size (the first listener), \<^verbatim>\<open>initParticles\<close> is not
  called, the particles and the random source stay as they are, and each event clears
  the pending timeout and sets a new one, so that after each event exactly one timeout is
  pending, the one of \<^verbatim>\<open>resizeTimer\<close>, due 250 ms after that event. When no further event
  arrives the timeout runs, 250 ms after the last event: it resizes the canvas once more,
  to the size it has, and calls \<^verbatim>\<open>initParticles\<close>, which replaces the particles by
  \<open>particleCount\<close> new ones. In all: exactly one call of \<^verbatim>\<open>initParticles\<close> and \<open>N + 1\<close> calls
  of \<^verbatim>\<open>resizeCanvas\<close>. From any state the callback of the timeout sets the canvas to the
  window's size and replaces the particles.
\<close>

theorem resize_debounce:
  assumes "es \<noteq> []" and "burst (map fst es)" and "timers st = []"
  shows "(\<forall>n<length es.
            canvas_width (run (take (Suc n) es) st) = fst (snd (es ! n)) \<and>
            canvas_height (run (take (Suc n) es) st) = snd (snd (es ! n)) \<and>
            particles (run (take (Suc n) es) st) = particles st \<and>
            rand (run (take (Suc n) es) st) = rand st \<and>
            count_calls InitParticles (run (take (Suc n) es) st) = count_calls InitParticles st \<and>
            count_calls ResizeCanvas (run (take (Suc n) es) st) = count_calls ResizeCanvas st + Suc n \<and>
            (\<exists>i. timers (run (take (Suc n) es) st) = [(i, fst (es ! n) + 250)] \<and>
                 resizeTimer (run (take (Suc n) es) st) = Some i)) \<and>
         calls (run es st) = calls st @ map (\<lambda>e. (fst e, ResizeCanvas)) es \<and>
         calls (settle (run es st)) =
           calls st @ map (\<lambda>e. (fst e, ResizeCanvas)) es @
           [(fst (last es) + 250, ResizeCanvas), (fst (last es) + 250, InitParticles)] \<and>
         timers (settle (run es st)) = [] \<and>
         canvas_width (settle (run es st)) = fst (snd (last es)) \<and>
         canvas_height (settle (run es st)) = snd (snd (last es)) \<and>
         particles (settle (run es st)) =
           fst (init_loop (particleCount (fst (snd (last es))))
                  (fst (snd (last es))) (snd (snd (last es))) [] (rand st)) \<and>
         length (particles (settle (run es st))) = particleCount (fst (snd (last es))) \<and>
         count_calls InitParticles (settle (run es st)) = count_calls InitParticles st + 1 \<and>
         count_calls ResizeCanvas (settle (run es st)) =
           count_calls ResizeCanvas st + length es + 1 \<and>
         canvas_width (timeout_fires t st') = innerWidth st' \<and>
         canvas_height (timeout_fires t st') = innerHeight st' \<and>
         particles (timeout_fires t st') =
           fst (init_loop (particleCount (innerWidth st')) (innerWidth st') (innerHeight st') []
                  (rand st'))"
proof -
  have during: "canvas_width (run (take (Suc n) es) st) = fst (snd (es ! n)) \<and>
            canvas_height (run (take (Suc n) es) st) = snd (snd (es ! n)) \<and>
            particles (run (take (Suc n) es) st) = particles st \<and>
            rand (run (take (Suc n) es) st) = rand st \<and>
            count_calls InitParticles (run (take (Suc n) es) st) = count_calls InitParticles st \<and>
            count_calls ResizeCanvas (run (take (Suc n) es) st) = count_calls ResizeCanvas st + Suc n \<and>
            (\<exists>i. timers (run (take (Suc n) es) st) = [(i, fst (es ! n) + 250)] \<and>
                 resizeTimer (run (take (Suc n) es) st) = Some i)"
    if n: "n < length es" for n
  proof -
    define ps where "ps = take (Suc n) es"
    have ne: "ps \<noteq> []" using n by (auto simp add: ps_def)
    have "burst (take (Suc n) (map fst es))" using assms(2) by (rule burst_take)
    then have b: "burst (map fst ps)" by (simp add: ps_def take_map)
    have o: "one_pending st ps" using assms(3) by (simp add: one_pending_def)
    have l: "last ps = es ! n" "length ps = Suc n"
      using n by (simp_all add: ps_def take_Suc_conv_app_nth)
    note r = run_burst [OF ne b o, unfolded l]
    have c: "calls (run ps st) = calls st @ map (\<lambda>e. (fst e, ResizeCanvas)) ps"
      using r by blast
    have i: "count_calls InitParticles (run ps st) = count_calls InitParticles st"
      unfolding count_calls_def c by (simp add: filter_resize_calls)
    have j: "count_calls ResizeCanvas (run ps st) = count_calls ResizeCanvas st + Suc n"
      unfolding count_calls_def c by (simp add: filter_resize_calls l)
    show ?thesis using r i j unfolding ps_def by blast
  qed
  have o: "one_pending st es" using assms(3) by (simp add: one_pending_def)
  note r = run_burst [OF assms(1,2) o]
  have c: "calls (run es st) = calls st @ map (\<lambda>e. (fst e, ResizeCanvas)) es"
    using r by blast
  obtain i where i: "timers (run es st) = [(i, fst (last es) + 250)]"
    using r by blast
  define st1 where "st1 = (run es st)\<lparr>timers := []\<rparr>"
  have s: "settle (run es st) = timeout_fires (fst (last es) + 250) st1"
    unfolding st1_def using i by (rule settle_one)
  have f1: "calls st1 = calls st @ map (\<lambda>e. (fst e, ResizeCanvas)) es" "timers st1 = []"
    "innerWidth st1 = fst (snd (last es))" "innerHeight st1 = snd (snd (last es))"
    "rand st1 = rand st"
    using r by (simp_all add: st1_def)
  note tf = timeout_fires_fields [of "fst (last es) + 250" st1, unfolded f1, folded s]
  have c2: "calls (settle (run es st)) =
           calls st @ map (\<lambda>e. (fst e, ResizeCanvas)) es @
           [(fst (last es) + 250, ResizeCanvas), (fst (last es) + 250, InitParticles)]"
    using tf by simp
  have t2: "timers (settle (run es st)) = []" using tf by blast
  have w2: "canvas_width (settle (run es st)) = fst (snd (last es))"
    "canvas_height (settle (run es st)) = snd (snd (last es))" using tf by blast+
  have p2: "particles (settle (run es st)) =
           fst (init_loop (particleCount (fst (snd (last es))))
                  (fst (snd (last es))) (snd (snd (last es))) [] (rand st))"
    using tf by blast
  have l2: "length (particles (settle (run es st))) = particleCount (fst (snd (last es)))"
    unfolding p2 by (simp add: init_loop_length)
  have i2: "count_calls InitParticles (settle (run es st)) = count_calls InitParticles st + 1"
    unfolding count_calls_def c2 by (simp add: filter_resize_calls)
  have j2: "count_calls ResizeCanvas (settle (run es st)) = count_calls ResizeCanvas st + length es + 1"
    unfolding count_calls_def c2 by (simp add: filter_resize_calls)
  note g = timeout_fires_fields [of t st']
  have g1: "canvas_width (timeout_fires t st') = innerWidth st'"
    "canvas_height (timeout_fires t st') = innerHeight st'"
    "particles (timeout_fires t st') =
           fst (init_loop (particleCount (innerWidth st')) (innerWidth st') (innerHeight st') []
                  (rand st'))"
    using g by blast+
  have first: "\<forall>n<length es.
            canvas_width (run (take (Suc n) es) st) = fst (snd (es ! n)) \<and>
            canvas_height (run (take (Suc n) es) st) = snd (snd (es ! n)) \<and>
            particles (run (take (Suc n) es) st) = particles st \<and>
            rand (run (take (Suc n) es) st) = rand st \<and>
            count_calls InitParticles (run (take (Suc n) es) st) = count_calls InitParticles st \<and>
            count_calls ResizeCanvas (run (take (Suc n) es) st) = count_calls ResizeCanvas st + Suc n \<and>
            (\<exists>i. timers (run (take (Suc n) es) st) = [(i, fst (es ! n) + 250)] \<and>
                 resizeTimer (run (take (Suc n) es) st) = Some i)"
    using during by blast
  show ?thesis
    using first c c2 t2 w2 p2 l2 i2 j2 g1 by (intro conjI)
qed

theorem resize_debounce_witness:
  "[(0, 800, 600), (100, 700, 600), (300, 640, 480)] \<noteq> ([] :: (nat \<times> real \<times> real) list) \<and>
   burst (map fst [(0, 800, 600), (100, 700, 600), (300, 640 :: real, 480 :: real)]) \<and>
   timers (sample_page 1024 (sconst 0.5)) = [] \<and>
   1 < length [(0, 800, 600), (100, 700, 600), (300 :: nat, 640 :: real, 480 :: real)] \<and>
   canvas_width (run [(0, 800, 600), (100, 700, 600)] (sample_page 1024 (sconst 0.5))) = 700 \<and>
   canvas_height (run [(0, 800, 600), (100, 700, 600)] (sample_page 1024 (sconst 0.5))) = 600 \<and>
   particles (run [(0, 800, 600), (100, 700, 600)] (sample_page 1024 (sconst 0.5))) = [] \<and>
   count_calls InitParticles (run [(0, 800, 600), (100, 700, 600)] (sample_page 1024 (sconst 0.5))) = 0 \<and>
   (\<exists>i. timers (run [(0, 800, 600), (100, 700, 600)] (sample_page 1024 (sconst 0.5))) = [(i, 350)] \<and>
        resizeTimer (run [(0, 800, 600), (100, 700, 600)] (sample_page 1024 (sconst 0.5))) = Some i) \<and>
   calls (run [(0, 800, 600), (100, 700, 600), (300, 640, 480)] (sample_page 1024 (sconst 0.5)))
     = [(0, ResizeCanvas), (100, ResizeCanvas), (300, ResizeCanvas)] \<and>
   calls (settle (run [(0, 800, 600), (100, 700, 600), (300, 640, 480)] (sample_page 1024 (sconst 0.5))))
     = [(0, ResizeCanvas), (100, ResizeCanvas), (300, ResizeCanvas),
        (550, ResizeCanvas), (550, InitParticles)] \<and>
   timers (settle (run [(0, 800, 600), (100, 700, 600), (300, 640, 480)] (sample_page 1024 (sconst 0.5)))) = [] \<and>
   canvas_width
     (settle (run [(0, 800, 600), (100, 700, 600), (300, 640, 480)] (sample_page 1024 (sconst 0.5)))) = 640 \<and>
   canvas_height
     (settle (run [(0, 800, 600), (100, 700, 600), (300, 640, 480)] (sample_page 1024 (sconst 0.5)))) = 480 \<and>
   length (particles
     (settle (run [(0, 800, 600), (100, 700, 600), (300, 640, 480)] (sample_page 1024 (sconst 0.5))))) = 40 \<and>
   count_calls InitParticles
     (settle (run [(0, 800, 600), (100, 700, 600), (300, 640, 480)] (sample_page 1024 (sconst 0.5)))) = 1"
proof -
  define es :: "(nat \<times> real \<times> real) list" where "es = [(0, 800, 600), (100, 700, 600), (300, 640, 480)]"
  define S where "S = sample_page 1024 (sconst 0.5)"
  have h: "es \<noteq> []" "burst (map fst es)" "timers S = []"
    by (simp_all add: es_def S_def sample_page_def)
  have n: "1 < length es" by (simp add: es_def)
  have z: "calls S = []" "count_calls InitParticles S = 0" "particles S = []"
    by (simp_all add: S_def sample_page_def count_calls_def)
  have l: "last es = (300, 640, 480)" "take (Suc 1) es = [(0, 800, 600), (100, 700, 600)]"
    "es ! 1 = (100, 700, 600)"
    by (simp_all add: es_def)
  have m: "map (\<lambda>e. (fst e, ResizeCanvas)) es = [(0, ResizeCanvas), (100, ResizeCanvas), (300, ResizeCanvas)]"
    "length es = 3"
    by (simp_all add: es_def)
  note T = resize_debounce [OF h, of 0 S]
  have d: "canvas_width (run [(0, 800, 600), (100, 700, 600)] S) = 700"
    "canvas_height (run [(0, 800, 600), (100, 700, 600)] S) = 600"
    "particles (run [(0, 800, 600), (100, 700, 600)] S) = []"
    "count_calls InitParticles (run [(0, 800, 600), (100, 700, 600)] S) = 0"
    "\<exists>i. timers (run [(0, 800, 600), (100, 700, 600)] S) = [(i, 350)] \<and>
         resizeTimer (run [(0, 800, 600), (100, 700, 600)] S) = Some i"
    using T [THEN conjunct1, rule_format, OF n] unfolding l z by simp_all
  have a: "calls (run es S) = [(0, ResizeCanvas), (100, ResizeCanvas), (300, ResizeCanvas)]"
    "calls (settle (run es S)) = [(0, ResizeCanvas), (100, ResizeCanvas), (300, ResizeCanvas),
        (550, ResizeCanvas), (550, InitParticles)]"
    "timers (settle (run es S)) = []"
    "canvas_width (settle (run es S)) = 640" "canvas_height (settle (run es S)) = 480"
    "length (particles (settle (run es S))) = 40"
    "count_calls InitParticles (settle (run es S)) = 1"
    using T [THEN conjunct2] unfolding l z m by (simp_all add: particleCount_def init_loop_length)
  show ?thesis
    using h n d a unfolding es_def S_def by (intro conjI)
qed

text \<open>
  C5 as stated fails: \<^verbatim>\<open>resizeCanvas\<close> is also registered as a listener of its own, which
  is not debounced. In a burst of three events at 0, 100 and 300 ms the canvas is resized
  three times during the burst (after the second event it is 700 wide) and a fourth time
  when the timeout runs, not exactly once.
\<close>

theorem resize_listener_counterexample:
  "burst (map fst [(0, 800, 600), (100, 700, 600), (300, 640 :: real, 480 :: real)]) \<and>
   count_calls ResizeCanvas
     (run [(0, 800, 600), (100, 700, 600), (300, 640, 480)] (sample_page 1024 (sconst 0.5))) = 3 \<and>
   canvas_width
     (run [(0, 800, 600), (100, 700, 600)] (sample_page 1024 (sconst 0.5))) = 700 \<and>
   count_calls ResizeCanvas
     (settle (run [(0, 800, 600), (100, 700, 600), (300, 640, 480)] (sample_page 1024 (sconst 0.5)))) = 4 \<and>
   count_calls ResizeCanvas
     (settle (run [(0, 800, 600), (100, 700, 600), (300, 640, 480)] (sample_page 1024 (sconst 0.5)))) \<noteq> 1"
proof -
  define es :: "(nat \<times> real \<times> real) list" where "es = [(0, 800, 600), (100, 700, 600), (300, 640, 480)]"
  define S where "S = sample_page 1024 (sconst 0.5)"
  have b: "burst (map fst es)" by (simp add: es_def)
  have ne: "es \<noteq> []" by (simp add: es_def)
  have o: "one_pending S es" by (simp add: one_pending_def S_def sample_page_def)
  have z: "calls S = []" by (simp add: S_def sample_page_def)
  note r = run_burst [OF ne b o]
  have c: "calls (run es S) = [(0, ResizeCanvas), (100, ResizeCanvas), (300, ResizeCanvas)]"
    using r by (simp add: z es_def)
  have c3: "count_calls ResizeCanvas (run es S) = 3"
    unfolding count_calls_def c by simp
  obtain i where i: "timers (run es S) = [(i, fst (last es) + 250)]"
    using r by blast
  have s: "settle (run es S) = timeout_fires (fst (last es) + 250) ((run es S)\<lparr>timers := []\<rparr>)"
    using i by (rule settle_one)
  have "calls (settle (run es S)) = calls (run es S) @
          [(fst (last es) + 250, ResizeCanvas), (fst (last es) + 250, InitParticles)]"
    unfolding s using timeout_fires_fields [of "fst (last es) + 250" "(run es S)\<lparr>timers := []\<rparr>"]
    by simp
  then have c4: "count_calls ResizeCanvas (settle (run es S)) = 4"
    unfolding count_calls_def c by simp
  have b2: "burst (map fst [(0 :: nat, 800 :: real, 600 :: real), (100, 700, 600)])" by simp
  have o2: "one_pending S [(0, 800, 600), (100, 700, 600)]"
    by (simp add: one_pending_def S_def sample_page_def)
  have w: "canvas_width (run [(0, 800, 600), (100, 700, 600)] S) = 700"
    using run_burst [OF _ b2 o2] by simp
  have "count_calls ResizeCanvas (settle (run es S)) \<noteq> 1" unfolding c4 by simp
  then show ?thesis
    using b c3 w c4 unfolding es_def S_def by (intro conjI)
qed

end
